theory Spec2Isabelle
  imports Complex_Main "HOL-Library.Word" "HOL-Library.Multiset" "HOL-Library.Product_Lexorder"
begin

section \<open>Data model\<close>

text \<open>
  Identifiers (\<^verbatim>\<open>entities.OrderID\<close>, \<^verbatim>\<open>entities.MarketID\<close>, \<^verbatim>\<open>entities.PartyID\<close>) are
  strings; the programs only compare them, use them as map keys and print them.
\<close>

type_synonym OrderID = string
type_synonym MarketID = string
type_synonym PartyID = string

text \<open>
  Modelled from the spec: the enumerations \<^verbatim>\<open>entities.Side\<close>, \<^verbatim>\<open>entities.OrderStatus\<close>,
  \<^verbatim>\<open>entities.OrderType\<close> and \<^verbatim>\<open>entities.OrderTimeInForce\<close> are declared in the imported
  package \<^verbatim>\<open>entities\<close>, not under the sources. Each datatype has the constants the
  sources and the specification name, and one more constructor that stands for every
  other value of the enumeration (the programs treat all of them alike).
\<close>

datatype Side = SideBuy | SideSell | SideOther nat

datatype OrderStatus =
  OrderStatusActive | OrderStatusParked | OrderStatusFilled | OrderStatusOther nat

datatype OrderType = OrderTypeLimit | OrderTypeMarket | OrderTypeOther nat

datatype OrderTimeInForce =
  OrderTimeInForceIOC | OrderTimeInForceFOK | OrderTimeInForceOther nat

text \<open>
  \<^verbatim>\<open>int64\<close> is a 64-bit word, read as a signed number with \<^const>\<open>sint\<close>; \<open>+\<close> wraps
  around as Go's does.
\<close>

type_synonym int64 = "64 word"

text \<open>
  \<^verbatim>\<open>type Order struct\<close>. The type \<open>'p\<close> is the type of the price: \<open>Decimal\<close> below for
  \<^verbatim>\<open>main.go\<close>, a 256-bit word for the \<^verbatim>\<open>uint256.Int\<close> of the second source file (an
  array of four \<^verbatim>\<open>uint64\<close>, which Go compares by value). Equality on \<open>'p\<close> is Go's \<^verbatim>\<open>==\<close>,
  the equality of map keys; the numeric value of a price is taken by a function \<open>val\<close>
  wherever prices are compared. The field \<open>PartyID\<close> exists in the second source file
  only; nothing of \<^verbatim>\<open>main.go\<close> reads it.
\<close>

record 'p Order =
  ID :: OrderID
  MarketID :: MarketID
  PartyID :: PartyID
  Side :: Side
  Price :: 'p
  Remaining :: int64
  TimeInForce :: OrderTimeInForce
  Type :: OrderType
  Status :: OrderStatus

text \<open>\<^verbatim>\<open>type Level struct\<close>: the key of the inner map of the depth.\<close>

record 'p Level =
  price :: 'p
  side :: Side

text \<open>
  The type \<^verbatim>\<open>decimal.Decimal\<close>, the price of \<^verbatim>\<open>main.go\<close>, is declared in the imported
  package \<^verbatim>\<open>decimal\<close>, not under the sources. It is modelled after that package: a struct
  of a pointer to a \<^verbatim>\<open>big.Int\<close> and an \<^verbatim>\<open>int32\<close> exponent, for the number
  \<open>value * 10 ^ exp\<close>. Go's \<^verbatim>\<open>==\<close> on the struct compares the pointer and the exponent,
  not the number; this is the equality of the record \<open>Decimal\<close>. The \<^verbatim>\<open>big.Int\<close> objects
  are in a heap, a list with the address of an object as its index; allocating appends
  to the list.
\<close>

type_synonym int32 = "32 word"

record Decimal =
  value_ptr :: nat
  exponent :: int32

type_synonym heap = "int list"

definition bigInt :: "heap \<Rightarrow> nat \<Rightarrow> int" where
  "bigInt h a = (if a < length h then h ! a else 0)"

text \<open>
  A decimal number as the database holds it and as the CSV file shows it: the digits
  as an integer, and the exponent. \<^verbatim>\<open>String()\<close> gives the number a \<open>Decimal\<close> stands for,
  and \<^verbatim>\<open>LessThan\<close> compares the numbers.
\<close>

type_synonym numeric = "int \<times> int32"

definition numeric_val :: "numeric \<Rightarrow> rat" where
  "numeric_val n =
     (if 0 \<le> sint (snd n) then of_int (fst n) * 10 ^ nat (sint (snd n))
      else of_int (fst n) / 10 ^ nat (- sint (snd n)))"

definition decimalString :: "heap \<Rightarrow> Decimal \<Rightarrow> numeric" where
  "decimalString h d = (bigInt h (value_ptr d), exponent d)"

definition decimal_val :: "heap \<Rightarrow> Decimal \<Rightarrow> rat" where
  "decimal_val h d = numeric_val (decimalString h d)"

text \<open>
  Scanning a row of the query into an \<^verbatim>\<open>Order\<close> (\<^verbatim>\<open>pgxscan.Select\<close>, with the \<^verbatim>\<open>Scan\<close>
  method of \<^verbatim>\<open>decimal.Decimal\<close>) allocates a new \<^verbatim>\<open>big.Int\<close> for the price of every row.
\<close>

definition scanPrice :: "heap \<Rightarrow> numeric \<Rightarrow> Decimal \<times> heap" where
  "scanPrice h n = (\<lparr>value_ptr = length h, exponent = snd n\<rparr>, h @ [fst n])"

definition withPrice :: "'a Order \<Rightarrow> 'b \<Rightarrow> 'b Order" where
  "withPrice order p =
     \<lparr>ID = ID order, MarketID = MarketID order, PartyID = PartyID order, Side = Side order,
      Price = p, Remaining = Remaining order, TimeInForce = TimeInForce order,
      Type = Type order, Status = Status order\<rparr>"

fun scanOrders :: "heap \<Rightarrow> numeric Order list \<Rightarrow> Decimal Order list \<times> heap" where
  "scanOrders h [] = ([], h)"
| "scanOrders h (row # rows) =
     (let scanned = scanPrice h (Price row);
          others = scanOrders (snd scanned) rows
      in (withPrice row (fst scanned) # fst others, snd others))"

section \<open>Liveness classifier\<close>

text \<open>\<^verbatim>\<open>func (o Order) isLive() bool\<close> of \<^verbatim>\<open>main.go\<close>: three guards, in the source's order.\<close>

definition isLive :: "'p Order \<Rightarrow> bool" where
  "isLive order =
     (if Status order \<noteq> OrderStatusActive \<and> Status order \<noteq> OrderStatusParked then False
      else if Type order \<noteq> OrderTypeLimit then False
      else if TimeInForce order = OrderTimeInForceIOC \<or> TimeInForce order = OrderTimeInForceFOK
        then False
      else True)"

text \<open>\<^verbatim>\<open>func (o Order) isLive() bool\<close> of the second source file.\<close>

definition isLive_p0 :: "'p Order \<Rightarrow> bool" where
  "isLive_p0 order = (Status order = OrderStatusActive)"

section \<open>Live order table\<close>

text \<open>\<^verbatim>\<open>map[entities.OrderID]Order\<close>: a Go map is a finite partial function.\<close>

type_synonym 'p LiveOrders = "OrderID \<rightharpoonup> 'p Order"

text \<open>
  The body of the first loop of \<^verbatim>\<open>doBucket\<close>, the same text in both source files; the
  classifier \<open>live\<close> is the \<^verbatim>\<open>isLive\<close> of the file. Go's \<^verbatim>\<open>delete\<close> does nothing for a
  key that is not in the map.
\<close>

definition applyOrder :: "('p Order \<Rightarrow> bool) \<Rightarrow> 'p Order \<Rightarrow> 'p LiveOrders \<Rightarrow> 'p LiveOrders" where
  "applyOrder live order liveOrders =
     (if live order then liveOrders(ID order \<mapsto> order)
      else liveOrders(ID order := None))"

text \<open>\<^verbatim>\<open>for _, order := range orders { ... }\<close>: the slice is visited front to back.\<close>

definition applyOrders :: "('p Order \<Rightarrow> bool) \<Rightarrow> 'p Order list \<Rightarrow> 'p LiveOrders \<Rightarrow> 'p LiveOrders" where
  "applyOrders live orders liveOrders = fold (applyOrder live) orders liveOrders"

section \<open>Depth aggregation\<close>

text \<open>\<^verbatim>\<open>map[entities.MarketID]map[Level]int64\<close>.\<close>

type_synonym 'p Prices = "'p Level \<rightharpoonup> int64"
type_synonym 'p Depth = "MarketID \<rightharpoonup> 'p Prices"

definition levelOf :: "'p Order \<Rightarrow> 'p Level" where
  "levelOf order = \<lparr>price = Price order, side = Side order\<rparr>"

text \<open>
  The body of the second loop of \<^verbatim>\<open>doBucket\<close>. Reading a key that is not in a Go map
  gives the zero value, so \<^verbatim>\<open>+=\<close> on a new level starts from \<open>0\<close>; the addition is
  \<^verbatim>\<open>int64\<close> addition.
\<close>

definition addVolume :: "'p Order \<Rightarrow> 'p Depth \<Rightarrow> 'p Depth" where
  "addVolume order depth =
     (let depth1 = (if depth (MarketID order) = None
                    then depth(MarketID order \<mapsto> Map.empty) else depth);
          lev = levelOf order;
          prices = (case depth1 (MarketID order) of Some ps \<Rightarrow> ps | None \<Rightarrow> Map.empty);
          old = (case prices lev of Some v \<Rightarrow> v | None \<Rightarrow> 0)
      in depth1(MarketID order \<mapsto> prices(lev \<mapsto> old + Remaining order)))"

text \<open>The depth built from the orders in the sequence the loop visits them.\<close>

definition aggregate :: "'p Order list \<Rightarrow> 'p Depth" where
  "aggregate orders = fold addVolume orders Map.empty"

text \<open>
  \<^verbatim>\<open>for k, v := range m\<close> visits every entry of a Go map once, in an order the language
  leaves open: \<open>es\<close> is a possible sequence of visits of \<open>m\<close>.
\<close>

definition range_of :: "('k \<rightharpoonup> 'v) \<Rightarrow> ('k \<times> 'v) list \<Rightarrow> bool" where
  "range_of m es = (distinct (map fst es) \<and> map_of es = m)"

text \<open>Reading the depth: \<^verbatim>\<open>depth[m][lev]\<close> with the presence of the level.\<close>

definition volume_at :: "'p Depth \<Rightarrow> MarketID \<Rightarrow> 'p Level \<Rightarrow> int64 option" where
  "volume_at depth m lev = (case depth m of None \<Rightarrow> None | Some prices \<Rightarrow> prices lev)"

text \<open>
  The words of the specification: the identifiers of the table entries with a given
  market, price and side, the remaining quantity of an entry, and the total of a depth
  over every market and level.
\<close>

definition entries_at :: "'p LiveOrders \<Rightarrow> MarketID \<Rightarrow> 'p Level \<Rightarrow> OrderID set" where
  "entries_at liveOrders m lev =
     {k. \<exists>order. liveOrders k = Some order \<and> MarketID order = m
           \<and> Price order = price lev \<and> Side order = side lev}"

definition remaining_of :: "'p LiveOrders \<Rightarrow> OrderID \<Rightarrow> int64" where
  "remaining_of liveOrders k = (case liveOrders k of Some order \<Rightarrow> Remaining order | None \<Rightarrow> 0)"

definition prices_of :: "'p Depth \<Rightarrow> MarketID \<Rightarrow> 'p Prices" where
  "prices_of depth m = (case depth m of Some prices \<Rightarrow> prices | None \<Rightarrow> Map.empty)"

definition vol_of :: "'p Prices \<Rightarrow> 'p Level \<Rightarrow> int64" where
  "vol_of prices lev = (case prices lev of Some v \<Rightarrow> v | None \<Rightarrow> 0)"

definition total_volume :: "'p Depth \<Rightarrow> int64" where
  "total_volume depth =
     (\<Sum>m \<in> dom depth. \<Sum>lev \<in> dom (prices_of depth m). vol_of (prices_of depth m) lev)"

section \<open>The query of a bucket\<close>

text \<open>
  Instants (\<^verbatim>\<open>time.Time\<close>, the column \<^verbatim>\<open>vega_time\<close>) are integers, in nanoseconds. A row
  of the table \<^verbatim>\<open>orders\<close> carries the columns the query orders by and the columns it
  selects.
\<close>

type_synonym Time = int

record 'p OrderRow =
  vega_time :: Time
  seq_num :: int
  selected :: "'p Order"

text \<open>
  The query of \<^verbatim>\<open>doBucket\<close>:
  \<^verbatim>\<open>where vega_time >= $1 and vega_time < $2 order by vega_time, seq_num\<close>.
\<close>

definition selectRows :: "'p OrderRow list \<Rightarrow> Time \<Rightarrow> Time \<Rightarrow> 'p OrderRow list" where
  "selectRows tbl start endt =
     sort_key (\<lambda>r. (vega_time r, seq_num r))
       (filter (\<lambda>r. vega_time r \<ge> start \<and> vega_time r < endt) tbl)"

definition selectOrders :: "'p OrderRow list \<Rightarrow> Time \<Rightarrow> Time \<Rightarrow> 'p Order list" where
  "selectOrders tbl start endt = map selected (selectRows tbl start endt)"

section \<open>Sorting the levels of a market\<close>

text \<open>
  The closure given to \<^verbatim>\<open>sort.Slice\<close>, on the elements at \<open>i\<close> and \<open>j\<close>:
  \<^verbatim>\<open>sprices[j].price.Lt(&sprices[i].price)\<close> (\<^verbatim>\<open>LessThan\<close> in \<^verbatim>\<open>main.go\<close>). The function
  \<open>val\<close> is the numeric value of a price.
\<close>

definition level_before :: "('p \<Rightarrow> 'n::linorder) \<Rightarrow> 'p Level \<Rightarrow> 'p Level \<Rightarrow> bool" where
  "level_before val a b = (val (price b) < val (price a))"

text \<open>
  Modelled from the spec: \<^verbatim>\<open>maps.Keys\<close> and \<^verbatim>\<open>sort.Slice\<close> are library functions, given
  here by their contracts. \<^verbatim>\<open>maps.Keys\<close> returns the keys of the map, each once, in an
  order it leaves open. \<^verbatim>\<open>sort.Slice\<close> permutes the slice so that no element must come
  before an earlier one; it is not stable, so elements that the closure does not order
  may end in any order.
\<close>

definition maps_Keys :: "('k \<rightharpoonup> 'v) \<Rightarrow> 'k list \<Rightarrow> bool" where
  "maps_Keys m ks = (distinct ks \<and> set ks = dom m)"

definition sort_Slice :: "('a \<Rightarrow> 'a \<Rightarrow> bool) \<Rightarrow> 'a list \<Rightarrow> 'a list \<Rightarrow> bool" where
  "sort_Slice before xs ys = (mset ys = mset xs \<and> sorted_wrt (\<lambda>a b. \<not> before b a) ys)"

text \<open>The levels of one market in the order the report gives them.\<close>

definition sorted_levels :: "('p \<Rightarrow> 'n::linorder) \<Rightarrow> 'p Prices \<Rightarrow> 'p Level list \<Rightarrow> bool" where
  "sorted_levels val prices sprices =
     (\<exists>ks. maps_Keys prices ks \<and> sort_Slice (level_before val) ks sprices)"

section \<open>The collaborators\<close>

text \<open>
  The errors of the run: the messages of \<^verbatim>\<open>fmt.Errorf\<close> and \<^verbatim>\<open>log.Fatal\<close>, with the
  wrapped error where the message wraps one.
\<close>

datatype error =
  FailedQueryOrders
  | FailedCreatingFile
  | FailedWriteToFile
  | FailedWriteDepthCsv error
  | FailedWriteLiveOrdersCsv error
  | FailedGetFirstBlock
  | FailedGetLastBlock
  | FailedProcessBucket error

text \<open>
  What a call of \<^verbatim>\<open>doBucket\<close> can do: return \<^verbatim>\<open>nil\<close> (\<open>Ok\<close>, with what it leaves), return
  an error (\<open>Err\<close>), or end the process with \<^verbatim>\<open>log.Fatal\<close> (\<open>Fatal\<close>).
\<close>

datatype 'a result = Ok 'a | Err error | Fatal error

text \<open>
  The files the programs create: one per market and bucket in \<^verbatim>\<open>main.go\<close>
  (\<^verbatim>\<open>depth-<market>-<end>.csv\<close>), one per bucket for the depth and one for the live
  orders in the second source file.
\<close>

datatype csv_file = DepthMarketFile MarketID Time | DepthFile Time | LiveOrdersFile Time

text \<open>
  A CSV record is a list of fields, in the order of the \<^verbatim>\<open>[]string\<close> literal. The type
  \<open>'v\<close> is the price as the file shows it: the number for \<^verbatim>\<open>main.go\<close>, the \<^verbatim>\<open>uint256\<close>
  value for the second source file.
\<close>

datatype 'v field =
  FTime Time | FMarket MarketID | FParty PartyID | FOrder OrderID
  | FSide Side | FPrice 'v | FInt int64

type_synonym 'v csv_record = "'v field list"

text \<open>
  Everything the run gets from outside: the rows of the table \<^verbatim>\<open>orders\<close>, the answers
  of the two queries on \<^verbatim>\<open>blocks\<close> (the latest block time is asked once per iteration,
  \<open>last_block_time env i\<close> is the answer of the \<open>i\<close>-th iteration, counted from \<open>0\<close>),
  which calls fail, and the orders in which Go visits the maps and leaves the sorted
  keys, each as a function of the map visited. Nothing is assumed of these functions
  here; the properties that need a visit to be one of the map say so (\<open>range_of\<close>,
  \<open>sorted_levels\<close>). The type \<open>'v\<close> is the price in the database and in the files, \<open>'p\<close>
  the price in memory.
\<close>

record ('v, 'p) env =
  orders_table :: "'v OrderRow list"
  select_fails :: "Time \<Rightarrow> Time \<Rightarrow> bool"
  first_block_bucket_start :: "error + Time"
  last_block_time :: "nat \<Rightarrow> error + Time"
  create_fails :: "csv_file \<Rightarrow> bool"
  write_fails :: "csv_file \<Rightarrow> 'v csv_record \<Rightarrow> bool"
  range_liveOrders :: "'p LiveOrders \<Rightarrow> (OrderID \<times> 'p Order) list"
  range_depth :: "'p Depth \<Rightarrow> (MarketID \<times> 'p Prices) list"
  sorted_keys :: "'p Prices \<Rightarrow> 'p Level list"

text \<open>
  What a bucket leaves behind: the records whose \<^verbatim>\<open>Write\<close> returned no error, in the
  order of the calls, and the line it prints (the end of the bucket, \<^verbatim>\<open>len(orders)\<close>,
  \<^verbatim>\<open>len(liveOrders)\<close>).
\<close>

record 'v report =
  depth_records :: "'v csv_record list"
  live_records :: "'v csv_record list"
  printed :: "Time \<times> nat \<times> nat"

section \<open>Writing a bucket, \<^verbatim>\<open>main.go\<close>\<close>

text \<open>
  The record of one level; \<^verbatim>\<open>vol := prices[level]\<close>, and \<^verbatim>\<open>level.price.String()\<close> reads the
  heap.
\<close>

definition depthRecord :: "heap \<Rightarrow> MarketID \<Rightarrow> Time \<Rightarrow> Decimal Prices \<Rightarrow> Decimal Level \<Rightarrow> numeric csv_record" where
  "depthRecord h marketID endt prices level =
     [FMarket marketID, FTime endt, FSide (side level), FPrice (decimalString h (price level)),
      FInt (vol_of prices level)]"

text \<open>
  \<^verbatim>\<open>for marketID, prices := range volume { ... }\<close> of \<^verbatim>\<open>main.go\<close>. A file that cannot be
  created ends the process (\<^verbatim>\<open>log.Fatal\<close>). The value \<^verbatim>\<open>csvWriter.Write\<close> returns is
  dropped: a record whose write fails is skipped and the loop goes on.
\<close>

fun writeMarkets :: "(numeric, Decimal) env \<Rightarrow> heap \<Rightarrow> Time \<Rightarrow> (MarketID \<times> Decimal Prices) list \<Rightarrow> numeric csv_record list result" where
  "writeMarkets env h endt [] = Ok []"
| "writeMarkets env h endt ((marketID, prices) # rest) =
     (if create_fails env (DepthMarketFile marketID endt) then Fatal FailedCreatingFile
      else
        let sprices = sorted_keys env prices;
            written = filter (\<lambda>r. \<not> write_fails env (DepthMarketFile marketID endt) r)
                        (map (depthRecord h marketID endt prices) sprices)
        in (case writeMarkets env h endt rest of
              Ok others \<Rightarrow> Ok (written @ others)
            | Err e \<Rightarrow> Err e
            | Fatal e \<Rightarrow> Fatal e))"

text \<open>
  \<^verbatim>\<open>doBucket\<close> of \<^verbatim>\<open>main.go\<close>. It returns \<^verbatim>\<open>nil\<close> or ends the process, and never returns
  an error. Its state is the table \<^verbatim>\<open>liveOrders\<close> and the heap of the \<^verbatim>\<open>big.Int\<close> objects
  that the prices in the table point to.
\<close>

definition doBucket :: "(numeric, Decimal) env \<Rightarrow> Time \<Rightarrow> Time \<Rightarrow> Decimal LiveOrders \<times> heap
    \<Rightarrow> ((Decimal LiveOrders \<times> heap) \<times> numeric report) result" where
  "doBucket env start endt state =
     (if select_fails env start endt then Fatal FailedQueryOrders
      else
        let liveOrders = fst state;
            scanned = scanOrders (snd state) (selectOrders (orders_table env) start endt);
            orders = fst scanned;
            h = snd scanned;
            liveOrders1 = applyOrders isLive orders liveOrders;
            volume = aggregate (map snd (range_liveOrders env liveOrders1))
        in (case writeMarkets env h endt (range_depth env volume) of
              Ok written \<Rightarrow>
                Ok ((liveOrders1, h),
                    \<lparr>depth_records = written, live_records = [],
                     printed = (endt, length orders, card (dom liveOrders1))\<rparr>)
            | Err e \<Rightarrow> Err e
            | Fatal e \<Rightarrow> Fatal e))"

section \<open>Writing a bucket, the second source file\<close>

definition depthRecord_p0 :: "Time \<Rightarrow> MarketID \<Rightarrow> 'p Prices \<Rightarrow> 'p Level \<Rightarrow> 'p csv_record" where
  "depthRecord_p0 endt marketID prices level =
     [FTime endt, FMarket marketID, FSide (side level), FPrice (price level),
      FInt (vol_of prices level)]"

definition liveRecord :: "Time \<Rightarrow> 'p Order \<Rightarrow> 'p csv_record" where
  "liveRecord endt order =
     [FTime endt, FMarket (MarketID order), FParty (PartyID order), FOrder (ID order),
      FSide (Side order), FPrice (Price order), FInt (Remaining order)]"

text \<open>
  \<^verbatim>\<open>if err := csvWriter.Write(record); err != nil { return ... }\<close>: the first write that
  fails ends the function with the error.
\<close>

fun writeRecords :: "('r \<Rightarrow> bool) \<Rightarrow> 'r list \<Rightarrow> error + 'r list" where
  "writeRecords fails [] = Inr []"
| "writeRecords fails (r # rs) =
     (if fails r then Inl FailedWriteToFile
      else (case writeRecords fails rs of
              Inl e \<Rightarrow> Inl e
            | Inr written \<Rightarrow> Inr (r # written)))"

fun writeDepthMarkets :: "('p, 'p) env \<Rightarrow> Time \<Rightarrow> (MarketID \<times> 'p Prices) list \<Rightarrow> error + 'p csv_record list" where
  "writeDepthMarkets env endt [] = Inr []"
| "writeDepthMarkets env endt ((marketID, prices) # rest) =
     (let sprices = sorted_keys env prices in
      case writeRecords (write_fails env (DepthFile endt))
             (map (depthRecord_p0 endt marketID prices) sprices) of
        Inl e \<Rightarrow> Inl e
      | Inr written \<Rightarrow>
          (case writeDepthMarkets env endt rest of
             Inl e \<Rightarrow> Inl e
           | Inr others \<Rightarrow> Inr (written @ others)))"

definition writeDepth :: "('p, 'p) env \<Rightarrow> Time \<Rightarrow> 'p Depth \<Rightarrow> error + 'p csv_record list" where
  "writeDepth env endt depth =
     (if create_fails env (DepthFile endt) then Inl FailedCreatingFile
      else writeDepthMarkets env endt (range_depth env depth))"

definition writeLiveOrders :: "('p, 'p) env \<Rightarrow> Time \<Rightarrow> 'p LiveOrders \<Rightarrow> error + 'p csv_record list" where
  "writeLiveOrders env endt liveOrders =
     (if create_fails env (LiveOrdersFile endt) then Inl FailedCreatingFile
      else writeRecords (write_fails env (LiveOrdersFile endt))
             (map (\<lambda>(k, order). liveRecord endt order) (range_liveOrders env liveOrders)))"

text \<open>\<^verbatim>\<open>doBucket\<close> of the second source file: every error is returned to \<^verbatim>\<open>main\<close>.\<close>

definition doBucket_p0 :: "('p, 'p) env \<Rightarrow> Time \<Rightarrow> Time \<Rightarrow> 'p LiveOrders \<Rightarrow> ('p LiveOrders \<times> 'p report) result" where
  "doBucket_p0 env start endt liveOrders =
     (if select_fails env start endt then Err FailedQueryOrders
      else
        let orders = selectOrders (orders_table env) start endt;
            liveOrders1 = applyOrders isLive_p0 orders liveOrders;
            depth = aggregate (map snd (range_liveOrders env liveOrders1))
        in (case writeDepth env endt depth of
              Inl e \<Rightarrow> Err (FailedWriteDepthCsv e)
            | Inr written \<Rightarrow>
                (case writeLiveOrders env endt liveOrders1 of
                   Inl e \<Rightarrow> Err (FailedWriteLiveOrdersCsv e)
                 | Inr live \<Rightarrow>
                     Ok (liveOrders1,
                          \<lparr>depth_records = written, live_records = live,
                           printed = (endt, length orders, card (dom liveOrders1))\<rparr>))))"

section \<open>Driving loop\<close>

text \<open>
  The \<^verbatim>\<open>for { ... }\<close> of \<^verbatim>\<open>main\<close>, the same text in both source files; \<open>bucket\<close> is the
  \<^verbatim>\<open>doBucket\<close> of the file and \<open>W\<close> the width
  \<^verbatim>\<open>time.Minute * time.Duration(BUCKET_MINUTES)\<close>. The state that \<^verbatim>\<open>doBucket\<close> changes is
  the table \<^verbatim>\<open>liveOrders\<close>, for \<^verbatim>\<open>main.go\<close> together with the heap. The loop has no bound of
  its own, so it is a partial function: \<open>None\<close> is a run that never ends. A run that ends
  gives the error that ended it (\<open>None\<close> for \<^verbatim>\<open>log.Info("done")\<close>), the buckets processed,
  each with its start, its end and what it left behind, and the state.
\<close>

type_synonym ('s, 'r) run = "error option \<times> (Time \<times> Time \<times> 'r) list \<times> 's"

partial_function (option) driving_loop ::
  "(nat \<Rightarrow> error + Time) \<Rightarrow> (Time \<Rightarrow> Time \<Rightarrow> 's \<Rightarrow> ('s \<times> 'r) result)
     \<Rightarrow> int \<Rightarrow> Time \<Rightarrow> Time \<Rightarrow> 's \<Rightarrow> (Time \<times> Time \<times> 'r) list
     \<Rightarrow> ('s, 'r) run option" where
  "driving_loop getLastBlockTime bucket W start endt liveOrders buckets =
     (case getLastBlockTime (length buckets) of
        Inl e \<Rightarrow> Some (Some FailedGetLastBlock, buckets, liveOrders)
      | Inr lastBlockTime \<Rightarrow>
          if endt > lastBlockTime then Some (None, buckets, liveOrders)
          else
            (case bucket start endt liveOrders of
               Ok (liveOrders1, rep) \<Rightarrow>
                 driving_loop getLastBlockTime bucket W endt (endt + W) liveOrders1
                   (buckets @ [(start, endt, rep)])
             | Err e \<Rightarrow> Some (Some (FailedProcessBucket e), buckets, liveOrders)
             | Fatal e \<Rightarrow> Some (Some e, buckets, liveOrders)))"

definition Minute :: int where
  "Minute = 60000000000"

text \<open>
  \<^verbatim>\<open>main\<close> of \<^verbatim>\<open>main.go\<close>, from the first query on; \<^verbatim>\<open>BUCKET_MINUTES = 1\<close>. The table and
  the heap are empty at the start.
\<close>

definition BUCKET_MINUTES :: int where
  "BUCKET_MINUTES = 1"

definition main :: "(numeric, Decimal) env \<Rightarrow> (Decimal LiveOrders \<times> heap, numeric report) run option" where
  "main env =
     (case first_block_bucket_start env of
        Inl e \<Rightarrow> Some (Some FailedGetFirstBlock, [], (Map.empty, []))
      | Inr start \<Rightarrow>
          driving_loop (last_block_time env) (doBucket env) (Minute * BUCKET_MINUTES)
            start (start + Minute * BUCKET_MINUTES) (Map.empty, []) [])"

text \<open>\<^verbatim>\<open>main\<close> of the second source file; \<^verbatim>\<open>BUCKET_MINUTES = 5\<close>.\<close>

definition BUCKET_MINUTES_p0 :: int where
  "BUCKET_MINUTES_p0 = 5"

definition main_p0 :: "('p, 'p) env \<Rightarrow> ('p LiveOrders, 'p report) run option" where
  "main_p0 env =
     (case first_block_bucket_start env of
        Inl e \<Rightarrow> Some (Some FailedGetFirstBlock, [], Map.empty)
      | Inr start \<Rightarrow>
          driving_loop (last_block_time env) (doBucket_p0 env) (Minute * BUCKET_MINUTES_p0)
            start (start + Minute * BUCKET_MINUTES_p0) Map.empty [])"

text \<open>The buckets of a run, as intervals.\<close>

definition intervals :: "(Time \<times> Time \<times> 'r) list \<Rightarrow> (Time \<times> Time) list" where
  "intervals buckets = map (\<lambda>(start, endt, rep). (start, endt)) buckets"

section \<open>Auxiliary notions and example data\<close>

text \<open>A depth with finitely many markets and finitely many levels in each.\<close>

definition finite_depth :: "'p Depth \<Rightarrow> bool" where
  "finite_depth d = (finite (dom d) \<and> (\<forall>m ps. d m = Some ps \<longrightarrow> finite (dom ps)))"

text \<open>The total of one market of a depth.\<close>

definition inner_total :: "'p Depth \<Rightarrow> MarketID \<Rightarrow> int64" where
  "inner_total d m = (\<Sum>lev \<in> dom (prices_of d m). vol_of (prices_of d m) lev)"

text \<open>
  The rows of one market in the records of a report, and the order of their prices: each
  price at most the prices before it, and below the prices before it on the same side.
\<close>

definition market_rows :: "MarketID \<Rightarrow> 'v csv_record list \<Rightarrow> 'v csv_record list" where
  "market_rows m records = filter (\<lambda>r. FMarket m \<in> set r) records"

definition price_descending :: "('v \<Rightarrow> 'n::linorder) \<Rightarrow> 'v csv_record list \<Rightarrow> bool" where
  "price_descending val records =
     sorted_wrt (\<lambda>r r'. \<forall>p p'. FPrice p \<in> set r \<and> FPrice p' \<in> set r' \<longrightarrow> val p' \<le> val p) records"

definition price_strictly_descending_by_side :: "('v \<Rightarrow> 'n::linorder) \<Rightarrow> 'v csv_record list \<Rightarrow> bool" where
  "price_strictly_descending_by_side val records =
     sorted_wrt (\<lambda>r r'. \<forall>p p' sd. FPrice p \<in> set r \<and> FSide sd \<in> set r
                   \<and> FPrice p' \<in> set r' \<and> FSide sd \<in> set r' \<longrightarrow> val p' < val p) records"

text \<open>
  The run visits a depth as Go may: every market once, and the keys of every market as
  \<^verbatim>\<open>maps.Keys\<close> and \<^verbatim>\<open>sort.Slice\<close> may leave them.
\<close>

definition visits_depth :: "('p \<Rightarrow> 'n::linorder) \<Rightarrow> ('v, 'p) env \<Rightarrow> 'p Depth \<Rightarrow> bool" where
  "visits_depth val env depth =
     (range_of depth (range_depth env depth)
      \<and> (\<forall>m prices. depth m = Some prices \<longrightarrow> sorted_levels val prices (sorted_keys env prices)))"

text \<open>
  Example records, with prices as \<^verbatim>\<open>uint256\<close> values: two buy orders of market \<open>M\<close> at
  price 50 with 3 and 4 remaining, a sell order at price 60 with nothing remaining, and
  the first order once filled.
\<close>

definition order_A :: "(256 word) Order" where
  "order_A = \<lparr>ID = ''A'', MarketID = ''M'', PartyID = ''P'', Side = SideBuy, Price = 50,
     Remaining = 3, TimeInForce = OrderTimeInForceOther 1, Type = OrderTypeLimit,
     Status = OrderStatusActive\<rparr>"

definition order_B :: "(256 word) Order" where
  "order_B = \<lparr>ID = ''B'', MarketID = ''M'', PartyID = ''Q'', Side = SideBuy, Price = 50,
     Remaining = 4, TimeInForce = OrderTimeInForceOther 1, Type = OrderTypeLimit,
     Status = OrderStatusActive\<rparr>"

definition order_Z :: "(256 word) Order" where
  "order_Z = \<lparr>ID = ''Z'', MarketID = ''M'', PartyID = ''Q'', Side = SideSell, Price = 60,
     Remaining = 0, TimeInForce = OrderTimeInForceOther 1, Type = OrderTypeLimit,
     Status = OrderStatusActive\<rparr>"

definition order_A_filled :: "(256 word) Order" where
  "order_A_filled = order_A\<lparr>Remaining := 0, Status := OrderStatusFilled\<rparr>"

definition entries_ABZ :: "(OrderID \<times> (256 word) Order) list" where
  "entries_ABZ = [(''A'', order_A), (''B'', order_B), (''Z'', order_Z)]"

definition level_50_buy :: "(256 word) Level" where
  "level_50_buy = \<lparr>price = 50, side = SideBuy\<rparr>"

definition level_60_sell :: "(256 word) Level" where
  "level_60_sell = \<lparr>price = 60, side = SideSell\<rparr>"

text \<open>
  Two rows of the table \<^verbatim>\<open>orders\<close>, at the times 0 and 5, and a run in which nothing
  fails: the latest block time is 10, the table is visited in the order \<open>A\<close>, \<open>B\<close>, \<open>Z\<close>,
  and the sorted keys have the level at 60 before the level at 50.
\<close>

definition row_A :: "(256 word) OrderRow" where
  "row_A = \<lparr>vega_time = 0, seq_num = 0, selected = order_A\<rparr>"

definition row_B :: "(256 word) OrderRow" where
  "row_B = \<lparr>vega_time = 5, seq_num = 1, selected = order_B\<rparr>"

definition rows_AB :: "(256 word) OrderRow list" where
  "rows_AB = [row_B, row_A]"

definition env_ok :: "(256 word, 256 word) env" where
  "env_ok = \<lparr>orders_table = rows_AB,
     select_fails = (\<lambda>start endt. False),
     first_block_bucket_start = Inr 0,
     last_block_time = (\<lambda>i. Inr 10),
     create_fails = (\<lambda>f. False),
     write_fails = (\<lambda>f r. False),
     range_liveOrders = (\<lambda>t. filter (\<lambda>e. t (fst e) = Some (snd e)) entries_ABZ),
     range_depth = (\<lambda>d. case d ''M'' of None \<Rightarrow> [] | Some ps \<Rightarrow> [(''M'', ps)]),
     sorted_keys = (\<lambda>ps. filter (\<lambda>l. ps l \<noteq> None) [level_60_sell, level_50_buy])\<rparr>"

text \<open>The same run with every \<^verbatim>\<open>csvWriter.Write\<close> failing and five minutes of blocks.\<close>

definition env_p0_write_fails :: "(256 word, 256 word) env" where
  "env_p0_write_fails =
     env_ok\<lparr>write_fails := (\<lambda>f r. True), last_block_time := (\<lambda>i. Inr (5 * Minute))\<rparr>"

definition table_AB :: "(256 word) LiveOrders" where
  "table_AB = [''A'' \<mapsto> order_A, ''B'' \<mapsto> order_B]"

text \<open>The run with a third row, of the order \<open>Z\<close> at the time 7.\<close>

definition row_Z :: "(256 word) OrderRow" where
  "row_Z = \<lparr>vega_time = 7, seq_num = 2, selected = order_Z\<rparr>"

definition env_ABZ :: "(256 word, 256 word) env" where
  "env_ABZ = env_ok\<lparr>orders_table := [row_Z, row_B, row_A]\<rparr>"

text \<open>The prices of a market with a buy and a sell level at 100.\<close>

definition level_100_buy :: "(256 word) Level" where
  "level_100_buy = \<lparr>price = 100, side = SideBuy\<rparr>"

definition level_100_sell :: "(256 word) Level" where
  "level_100_sell = \<lparr>price = 100, side = SideSell\<rparr>"

definition prices_tie :: "(256 word) Prices" where
  "prices_tie = [level_100_buy \<mapsto> 1, level_100_sell \<mapsto> 2]"

text \<open>
  The same two orders for \<^verbatim>\<open>main.go\<close>: the rows of the database with the price 50 as a
  number, the orders as the scan leaves them in memory, with the \<^verbatim>\<open>big.Int\<close> of the first
  at address 0 and of the second at address 1, and a run of two minutes in which nothing
  fails.
\<close>

definition db_order_A :: "numeric Order" where
  "db_order_A = \<lparr>ID = ''A'', MarketID = ''M'', PartyID = ''P'', Side = SideBuy, Price = (50, 0),
     Remaining = 3, TimeInForce = OrderTimeInForceOther 1, Type = OrderTypeLimit,
     Status = OrderStatusActive\<rparr>"

definition db_order_B :: "numeric Order" where
  "db_order_B = \<lparr>ID = ''B'', MarketID = ''M'', PartyID = ''Q'', Side = SideBuy, Price = (50, 0),
     Remaining = 4, TimeInForce = OrderTimeInForceOther 1, Type = OrderTypeLimit,
     Status = OrderStatusActive\<rparr>"

definition db_rows_AB :: "numeric OrderRow list" where
  "db_rows_AB = [\<lparr>vega_time = 5, seq_num = 1, selected = db_order_B\<rparr>,
                 \<lparr>vega_time = 0, seq_num = 0, selected = db_order_A\<rparr>]"

definition mem_order_A :: "Decimal Order" where
  "mem_order_A = withPrice db_order_A \<lparr>value_ptr = 0, exponent = 0\<rparr>"

definition mem_order_B :: "Decimal Order" where
  "mem_order_B = withPrice db_order_B \<lparr>value_ptr = 1, exponent = 0\<rparr>"

definition mem_table_AB :: "Decimal LiveOrders" where
  "mem_table_AB = [''A'' \<mapsto> mem_order_A, ''B'' \<mapsto> mem_order_B]"

definition mem_level_A :: "Decimal Level" where
  "mem_level_A = \<lparr>price = \<lparr>value_ptr = 0, exponent = 0\<rparr>, side = SideBuy\<rparr>"

definition mem_level_B :: "Decimal Level" where
  "mem_level_B = \<lparr>price = \<lparr>value_ptr = 1, exponent = 0\<rparr>, side = SideBuy\<rparr>"

definition env_main :: "(numeric, Decimal) env" where
  "env_main = \<lparr>orders_table = db_rows_AB,
     select_fails = (\<lambda>start endt. False),
     first_block_bucket_start = Inr 0,
     last_block_time = (\<lambda>i. Inr (2 * Minute)),
     create_fails = (\<lambda>f. False),
     write_fails = (\<lambda>f r. False),
     range_liveOrders = (\<lambda>t. filter (\<lambda>e. t (fst e) = Some (snd e))
                                  [(''A'', mem_order_A), (''B'', mem_order_B)]),
     range_depth = (\<lambda>d. case d ''M'' of None \<Rightarrow> [] | Some ps \<Rightarrow> [(''M'', ps)]),
     sorted_keys = (\<lambda>ps. filter (\<lambda>l. ps l \<noteq> None) [mem_level_A, mem_level_B])\<rparr>"

text \<open>The same run with every \<^verbatim>\<open>csvWriter.Write\<close> failing.\<close>

definition env_write_fails :: "(numeric, Decimal) env" where
  "env_write_fails = env_main\<lparr>write_fails := (\<lambda>f r. True)\<rparr>"

section \<open>Properties of the classifiers\<close>

text \<open>
  C7. The classifier of \<^verbatim>\<open>main.go\<close> accepts a record exactly when its status is active or
  parked, its type is limit and its time in force is neither immediate-or-cancel nor
  fill-or-kill. It reads these three fields only: two records that agree on them get
  the same answer, so the answer for one record is always the same.
\<close>

theorem isLive_strict_iff:
  "(isLive order \<longleftrightarrow>
      (Status order = OrderStatusActive \<or> Status order = OrderStatusParked)
      \<and> Type order = OrderTypeLimit
      \<and> TimeInForce order \<noteq> OrderTimeInForceIOC
      \<and> TimeInForce order \<noteq> OrderTimeInForceFOK)
   \<and> (\<forall>order'. (Status order' = Status order \<and> Type order' = Type order
          \<and> TimeInForce order' = TimeInForce order) \<longrightarrow> isLive order' = isLive order)"
  by (auto simp: isLive_def)

theorem isLive_strict_iff_witness:
  "isLive order_A \<and> \<not> isLive (order_A\<lparr>TimeInForce := OrderTimeInForceFOK\<rparr>)
   \<and> isLive (order_A\<lparr>Remaining := 0, Status := OrderStatusParked\<rparr>)
   \<and> \<not> isLive order_A_filled
   \<and> Status order_B = Status order_A \<and> Type order_B = Type order_A
   \<and> TimeInForce order_B = TimeInForce order_A \<and> isLive order_B = isLive order_A"
proof -
  have a: "isLive order_A \<and> \<not> isLive (order_A\<lparr>TimeInForce := OrderTimeInForceFOK\<rparr>)
      \<and> isLive (order_A\<lparr>Remaining := 0, Status := OrderStatusParked\<rparr>)
      \<and> \<not> isLive order_A_filled"
    using isLive_strict_iff [THEN conjunct1, of order_A]
      isLive_strict_iff [THEN conjunct1, of "order_A\<lparr>TimeInForce := OrderTimeInForceFOK\<rparr>"]
      isLive_strict_iff [THEN conjunct1, of "order_A\<lparr>Remaining := 0, Status := OrderStatusParked\<rparr>"]
      isLive_strict_iff [THEN conjunct1, of order_A_filled]
    by (simp add: order_A_def order_A_filled_def)
  have c: "Status order_B = Status order_A \<and> Type order_B = Type order_A
      \<and> TimeInForce order_B = TimeInForce order_A"
    by (simp add: order_A_def order_B_def)
  have "isLive order_B = isLive order_A"
    using isLive_strict_iff [of order_A] c by blast
  then show ?thesis
    using a c by blast
qed

text \<open>
  C8. The classifier of the second source file accepts a record exactly when its status
  is active, whatever its order type and time in force are.
\<close>

theorem isLive_p0_iff:
  "(isLive_p0 order \<longleftrightarrow> Status order = OrderStatusActive)
   \<and> (\<forall>ty tif. isLive_p0 (order\<lparr>Type := ty, TimeInForce := tif\<rparr>) = isLive_p0 order)"
  by (simp add: isLive_p0_def)

section \<open>Properties of the live order table\<close>

lemma applyOrders_Nil: "applyOrders live [] t = t"
  by (simp add: applyOrders_def)

lemma applyOrders_Cons:
  "applyOrders live (order # orders) t = applyOrders live orders (applyOrder live order t)"
  by (simp add: applyOrders_def)

lemma applyOrders_snoc:
  "applyOrders live (orders @ [order]) t = applyOrder live order (applyOrders live orders t)"
  by (simp add: applyOrders_def)

lemma applyOrder_at:
  "applyOrder live order t k =
     (if k = ID order then (if live order then Some order else None) else t k)"
  by (simp add: applyOrder_def)

lemma applyOrder_absent: "\<not> live order \<Longrightarrow> t (ID order) = None \<Longrightarrow> applyOrder live order t = t"
  by (auto simp: applyOrder_def)

text \<open>
  C1. The records of a bucket are applied front to back. Applying one record sets the
  entry of its identifier to the record when the classifier accepts it and removes the
  entry otherwise; every other entry is left as it was. Removing an identifier that is
  not in the table changes nothing; the function is total, so no error is raised.
\<close>

theorem applyOrders_each_record:
  "applyOrders live [] t = t
   \<and> applyOrders live (order # orders) t = applyOrders live orders (applyOrder live order t)
   \<and> (\<forall>k. applyOrder live order t k =
        (if k = ID order then (if live order then Some order else None) else t k))
   \<and> (\<not> live order \<and> t (ID order) = None \<longrightarrow> applyOrder live order t = t)"
  by (simp add: applyOrders_Nil applyOrders_Cons applyOrder_at applyOrder_absent)

theorem applyOrders_each_record_witness:
  "\<not> isLive order_A_filled \<and> (Map.empty :: (256 word) LiveOrders) (ID order_A_filled) = None
   \<and> applyOrder isLive order_A_filled Map.empty = Map.empty
   \<and> applyOrder isLive order_A Map.empty ''A'' = Some order_A"
proof -
  have n: "\<not> isLive order_A_filled"
    by (simp add: isLive_def order_A_filled_def order_A_def)
  have l: "isLive order_A"
    by (simp add: isLive_def order_A_def)
  have i: "ID order_A = ''A''"
    by (simp add: order_A_def)
  show ?thesis
    using applyOrders_each_record
        [where live = isLive and order = order_A_filled and orders = "[order_A]" and t = Map.empty]
      applyOrders_each_record
        [where live = isLive and order = order_A and orders = "[]" and t = Map.empty] n l i
    by simp
qed

text \<open>
  C3. For a non-empty sequence of records that all bear the identifier \<open>k\<close>, applied to
  any table, the entry of \<open>k\<close> at the end is the one that applying the last record alone
  gives: the last record if the classifier accepts it, no entry otherwise.
\<close>

theorem applyOrders_last_record:
  assumes "orders \<noteq> []" and "\<forall>order \<in> set orders. ID order = k"
  shows "applyOrders live orders t k = (if live (last orders) then Some (last orders) else None)
       \<and> applyOrders live orders t k = applyOrders live [last orders] t k"
proof -
  obtain xs x where o: "orders = xs @ [x]"
    using assms(1) by (metis append_butlast_last_id)
  have k: "ID x = k"
    using assms(2) o by simp
  have "applyOrders live orders t k = (if live (last orders) then Some (last orders) else None)"
    by (simp add: o applyOrders_snoc applyOrder_at k)
  then show ?thesis
    by (simp add: o applyOrders_Cons applyOrders_Nil applyOrder_at k)
qed

theorem applyOrders_last_record_witness:
  "[order_A, order_A\<lparr>Remaining := 5\<rparr>, order_A_filled] \<noteq> []
   \<and> applyOrders isLive [order_A, order_A\<lparr>Remaining := 5\<rparr>, order_A_filled] [''A'' \<mapsto> order_B] ''A''
       = None
   \<and> applyOrders isLive [order_A_filled, order_A] Map.empty ''A'' = Some order_A"
proof -
  have a: "\<forall>order \<in> set [order_A, order_A\<lparr>Remaining := 5\<rparr>, order_A_filled]. ID order = ''A''"
    by (simp add: order_A_def order_A_filled_def)
  have b: "\<forall>order \<in> set [order_A_filled, order_A]. ID order = ''A''"
    by (simp add: order_A_def order_A_filled_def)
  have n: "\<not> isLive order_A_filled"
    by (simp add: isLive_def order_A_filled_def order_A_def)
  have l: "isLive order_A"
    by (simp add: isLive_def order_A_def)
  show ?thesis
    using applyOrders_last_record [OF _ a, where live = isLive and t = "[''A'' \<mapsto> order_B]"]
      applyOrders_last_record [OF _ b, where live = isLive and t = Map.empty] n l
    by simp
qed

section \<open>Properties of the depth aggregation\<close>

lemma vol_of_prices_of: "vol_of (prices_of d m) lev = (case volume_at d m lev of None \<Rightarrow> 0 | Some v \<Rightarrow> v)"
  by (simp add: vol_of_def prices_of_def volume_at_def split: option.splits)

lemma volume_at_addVolume:
  "volume_at (addVolume order d) m lev =
     (if MarketID order = m \<and> levelOf order = lev
      then Some (vol_of (prices_of d m) lev + Remaining order)
      else volume_at d m lev)"
  by (auto simp: addVolume_def volume_at_def Let_def prices_of_def vol_of_def split: option.splits)

lemma addVolume_None: "addVolume order d m = None \<longleftrightarrow> d m = None \<and> MarketID order \<noteq> m"
  by (auto simp: addVolume_def Let_def)

lemma fold_addVolume_None:
  "fold addVolume orders d m = None \<longleftrightarrow> d m = None \<and> (\<forall>order \<in> set orders. MarketID order \<noteq> m)"
  by (induction orders arbitrary: d) (auto simp: addVolume_None)

lemma volume_at_fold:
  "volume_at (fold addVolume orders d) m lev =
     (let xs = filter (\<lambda>order. MarketID order = m \<and> levelOf order = lev) orders
      in if xs = [] then volume_at d m lev
         else Some (vol_of (prices_of d m) lev + sum_list (map Remaining xs)))"
proof (induction orders arbitrary: d)
  case Nil
  then show ?case by simp
next
  case (Cons order orders)
  show ?case
  proof (cases "MarketID order = m \<and> levelOf order = lev")
    case True
    then show ?thesis
      by (simp add: Cons.IH Let_def volume_at_addVolume vol_of_prices_of add.assoc)
  next
    case False
    then show ?thesis
      by (auto simp: Cons.IH Let_def volume_at_addVolume vol_of_prices_of)
  qed
qed

lemma range_of_lookup: "range_of m es \<Longrightarrow> (k, v) \<in> set es \<longleftrightarrow> m k = Some v"
  by (auto simp: range_of_def dest: map_of_SomeD)

lemma range_of_sum:
  assumes "range_of t es"
  shows "sum_list (map Remaining (filter P (map snd es)))
         = (\<Sum>k \<in> {k. \<exists>order. t k = Some order \<and> P order}. remaining_of t k)"
proof -
  let ?ks = "map fst (filter (\<lambda>e. P (snd e)) es)"
  have d: "distinct ?ks"
    using assms by (simp add: range_of_def distinct_map_filter)
  have s: "set ?ks = {k. \<exists>order. t k = Some order \<and> P order}"
    using range_of_lookup [OF assms] by force
  have r: "Remaining (snd e) = remaining_of t (fst e)" if "e \<in> set es" for e
    using range_of_lookup [OF assms, of "fst e" "snd e"] that by (simp add: remaining_of_def)
  have "map Remaining (filter P (map snd es)) = map (\<lambda>e. Remaining (snd e)) (filter (\<lambda>e. P (snd e)) es)"
    by (simp add: filter_map comp_def)
  also have "\<dots> = map (\<lambda>e. remaining_of t (fst e)) (filter (\<lambda>e. P (snd e)) es)"
    by (rule map_cong) (auto simp: r)
  finally have "map Remaining (filter P (map snd es)) = map (remaining_of t) ?ks"
    by (simp add: comp_def)
  then have "sum_list (map Remaining (filter P (map snd es))) = sum_list (map (remaining_of t) ?ks)"
    by simp
  also have "\<dots> = sum (remaining_of t) (set ?ks)"
    using d by (rule sum_list_distinct_conv_sum_set)
  finally show ?thesis by (simp only: s)
qed

lemma entries_at_alt:
  "entries_at t m lev = {k. \<exists>order. t k = Some order \<and> (MarketID order = m \<and> levelOf order = lev)}"
  by (auto simp: entries_at_def levelOf_def)

lemma range_of_filter_empty:
  assumes "range_of t es"
  shows "filter P (map snd es) = [] \<longleftrightarrow> {k. \<exists>order. t k = Some order \<and> P order} = {}"
proof -
  have "filter P (map snd es) = [] \<longleftrightarrow> (\<forall>e \<in> set es. \<not> P (snd e))"
    by (auto simp: filter_empty_conv)
  also have "\<dots> \<longleftrightarrow> (\<forall>k order. t k = Some order \<longrightarrow> \<not> P order)"
    using range_of_lookup [OF assms] by force
  finally show ?thesis by auto
qed

lemma volume_at_aggregate:
  assumes "range_of liveOrders es"
  shows "volume_at (aggregate (map snd es)) m lev =
     (if entries_at liveOrders m lev = {} then None
      else Some (\<Sum>k \<in> entries_at liveOrders m lev. remaining_of liveOrders k))"
  unfolding aggregate_def volume_at_fold Let_def entries_at_alt
    range_of_filter_empty [OF assms] range_of_sum [OF assms]
  by (simp add: volume_at_def vol_of_def prices_of_def)

lemma aggregate_None:
  assumes "range_of (liveOrders :: 'p LiveOrders) es"
  shows "aggregate (map snd es) m = None \<longleftrightarrow> (\<forall>k order. liveOrders k = Some order \<longrightarrow> MarketID order \<noteq> m)"
  unfolding aggregate_def fold_addVolume_None
  using range_of_lookup [OF assms] by force

lemma depth_eqI:
  assumes "\<And>m. (d m = None) = (d' m = None)" and "\<And>m lev. volume_at d m lev = volume_at d' m lev"
  shows "d = d'"
proof
  fix m
  show "d m = d' m"
  proof (cases "d m")
    case None
    then show ?thesis using assms(1) [of m] by simp
  next
    case (Some ps)
    then obtain ps' where p: "d' m = Some ps'" using assms(1) [of m] by (cases "d' m") auto
    have "ps lev = ps' lev" for lev using assms(2) [of m lev] Some p by (simp add: volume_at_def)
    then show ?thesis using Some p by auto
  qed
qed

lemma aggregate_order_independent:
  assumes "range_of (liveOrders :: 'p LiveOrders) es" and "range_of liveOrders es'"
  shows "aggregate (map snd es) = aggregate (map snd es')"
  by (rule depth_eqI)
    (simp_all add: aggregate_None [OF assms(1)] aggregate_None [OF assms(2)]
      volume_at_aggregate [OF assms(1)] volume_at_aggregate [OF assms(2)])

lemma finite_depth_addVolume: "finite_depth d \<Longrightarrow> finite_depth (addVolume order d)"
  by (auto simp: finite_depth_def addVolume_def Let_def split: if_splits option.splits)

lemma inner_sum_update:
  assumes "finite (dom ps)"
  shows "(\<Sum>lev \<in> dom (ps(l \<mapsto> vol_of ps l + r)). vol_of (ps(l \<mapsto> vol_of ps l + r)) lev)
         = (\<Sum>lev \<in> dom ps. vol_of ps lev) + (r :: int64)"
proof -
  have f: "finite (dom ps - {l})" using assms by simp
  have a: "(\<Sum>lev \<in> dom (ps(l \<mapsto> vol_of ps l + r)). vol_of (ps(l \<mapsto> vol_of ps l + r)) lev)
           = (vol_of ps l + r) + (\<Sum>lev \<in> dom ps - {l}. vol_of ps lev)"
    using f by (simp add: sum.insert_remove vol_of_def)
  have b: "(\<Sum>lev \<in> dom ps. vol_of ps lev) = vol_of ps l + (\<Sum>lev \<in> dom ps - {l}. vol_of ps lev)"
  proof (cases "l \<in> dom ps")
    case True
    then show ?thesis using assms by (simp add: sum.remove)
  next
    case False
    then have "vol_of ps l = 0" by (simp add: vol_of_def domIff)
    moreover have "dom ps - {l} = dom ps" using False by auto
    ultimately show ?thesis by simp
  qed
  show ?thesis unfolding a b by (simp add: add.assoc add.commute add.left_commute)
qed

lemma total_volume_alt: "total_volume d = sum (inner_total d) (dom d)"
  by (simp add: total_volume_def inner_total_def)

lemma inner_total_None: "d m = None \<Longrightarrow> inner_total d m = 0"
  by (simp add: inner_total_def prices_of_def)

lemma addVolume_other: "m \<noteq> MarketID order \<Longrightarrow> addVolume order d m = d m"
  by (simp add: addVolume_def Let_def)

lemma addVolume_same:
  "addVolume order d (MarketID order)
     = Some ((prices_of d (MarketID order))
         (levelOf order \<mapsto> vol_of (prices_of d (MarketID order)) (levelOf order) + Remaining order))"
  by (auto simp: addVolume_def Let_def prices_of_def vol_of_def split: option.splits)

lemma inner_total_addVolume:
  assumes "finite_depth d"
  shows "inner_total (addVolume order d) m
         = (if m = MarketID order then inner_total d m + Remaining order else inner_total d m)"
proof (cases "m = MarketID order")
  case True
  have f: "finite (dom (prices_of d (MarketID order)))"
    using assms by (auto simp: finite_depth_def prices_of_def split: option.splits)
  have p: "prices_of (addVolume order d) (MarketID order)
      = (prices_of d (MarketID order))
         (levelOf order \<mapsto> vol_of (prices_of d (MarketID order)) (levelOf order) + Remaining order)"
    by (simp add: prices_of_def [of "addVolume order d"] addVolume_same)
  have "inner_total (addVolume order d) (MarketID order)
      = inner_total d (MarketID order) + Remaining order"
    unfolding inner_total_def p by (rule inner_sum_update [OF f])
  then show ?thesis
    using True by simp
next
  case False
  then show ?thesis
    by (simp add: inner_total_def prices_of_def addVolume_other)
qed

lemma dom_addVolume: "dom (addVolume order d) = insert (MarketID order) (dom d)"
  by (auto simp: addVolume_def Let_def split: if_splits)

lemma total_volume_addVolume:
  assumes "finite_depth d"
  shows "total_volume (addVolume order d) = total_volume d + Remaining order"
proof -
  let ?m = "MarketID order"
  have f: "finite (dom d - {?m})" using assms by (simp add: finite_depth_def)
  have "total_volume (addVolume order d)
        = inner_total (addVolume order d) ?m + sum (inner_total (addVolume order d)) (dom d - {?m})"
    using f by (simp add: total_volume_alt dom_addVolume sum.insert_remove)
  also have "sum (inner_total (addVolume order d)) (dom d - {?m}) = sum (inner_total d) (dom d - {?m})"
    by (rule sum.cong) (auto simp: inner_total_addVolume [OF assms])
  also have "inner_total (addVolume order d) ?m = inner_total d ?m + Remaining order"
    by (simp add: inner_total_addVolume [OF assms])
  also have "inner_total d ?m + Remaining order + sum (inner_total d) (dom d - {?m})
             = (inner_total d ?m + sum (inner_total d) (dom d - {?m})) + Remaining order"
    by (simp add: add.assoc add.commute add.left_commute)
  also have "inner_total d ?m + sum (inner_total d) (dom d - {?m}) = total_volume d"
  proof (cases "?m \<in> dom d")
    case True
    then show ?thesis using assms by (simp add: total_volume_alt finite_depth_def sum.remove)
  next
    case False
    then have "inner_total d ?m = 0" by (simp add: inner_total_None domIff)
    moreover have "dom d - {?m} = dom d" using False by auto
    ultimately show ?thesis by (simp add: total_volume_alt)
  qed
  finally show ?thesis .
qed

lemma total_volume_fold:
  "finite_depth d \<Longrightarrow> total_volume (fold addVolume orders d) = total_volume d + sum_list (map Remaining orders)"
  by (induction orders arbitrary: d)
    (simp_all add: total_volume_addVolume finite_depth_addVolume add.assoc)

lemma total_volume_aggregate: "total_volume (aggregate orders) = sum_list (map Remaining orders)"
proof -
  have "finite_depth (Map.empty :: 'a Depth)" by (simp add: finite_depth_def)
  moreover have "total_volume (Map.empty :: 'a Depth) = 0" by (simp add: total_volume_def)
  ultimately show ?thesis by (simp add: aggregate_def total_volume_fold)
qed

lemma range_of_total:
  assumes "range_of (t :: 'p LiveOrders) es"
  shows "sum_list (map Remaining (map snd es)) = (\<Sum>k \<in> dom t. remaining_of t k)"
proof -
  have "sum_list (map Remaining (filter (\<lambda>_. True) (map snd es)))
        = (\<Sum>k \<in> {k. \<exists>order. t k = Some order \<and> True}. remaining_of t k)"
    by (rule range_of_sum [OF assms])
  moreover have "{k. \<exists>order. t k = Some order \<and> True} = dom t" by auto
  ultimately show ?thesis by simp
qed

text \<open>
  Whatever the order in which the table is visited, the depth holds, for a market and a
  level (a key of price and side), the \<^verbatim>\<open>int64\<close> sum of the remaining quantities of the
  table entries with that market and that key, and holds no level without such an
  entry. Every entry of the table counts towards its level, whatever its fields are: an
  entry with nothing remaining still makes its level present. A market is in the depth
  exactly when some entry has it. The prices of a key are equal as Go's \<^verbatim>\<open>==\<close> has them:
  as numbers in the second source file, as pointers in \<^verbatim>\<open>main.go\<close>.
\<close>

lemma aggregate_sums_entries:
  assumes "range_of (liveOrders :: 'p LiveOrders) es"
  shows "volume_at (aggregate (map snd es)) m lev =
           (if entries_at liveOrders m lev = {} then None
            else Some (\<Sum>k \<in> entries_at liveOrders m lev. remaining_of liveOrders k))
       \<and> (\<forall>k order. liveOrders k = Some order \<longrightarrow>
             k \<in> entries_at liveOrders (MarketID order) (levelOf order)
             \<and> volume_at (aggregate (map snd es)) (MarketID order) (levelOf order) \<noteq> None)
       \<and> (aggregate (map snd es) m = None \<longleftrightarrow> (\<forall>lev. entries_at liveOrders m lev = {}))"
proof -
  have a: "volume_at (aggregate (map snd es)) m lev =
           (if entries_at liveOrders m lev = {} then None
            else Some (\<Sum>k \<in> entries_at liveOrders m lev. remaining_of liveOrders k))" for m lev
    by (rule volume_at_aggregate [OF assms])
  have b: "k \<in> entries_at liveOrders (MarketID order) (levelOf order)"
    if "liveOrders k = Some order" for k order
    using that by (auto simp: entries_at_alt)
  have c: "(aggregate (map snd es) m = None) = (\<forall>lev. entries_at liveOrders m lev = {})"
    unfolding aggregate_None [OF assms] entries_at_alt by auto
  have "volume_at (aggregate (map snd es)) (MarketID order) (levelOf order) \<noteq> None"
    if "liveOrders k = Some order" for k order
    using b [OF that] by (auto simp: a)
  then show ?thesis
    using a b c by blast
qed

lemma aggregate_sums_entries_example:
  "range_of (map_of entries_ABZ) entries_ABZ
   \<and> volume_at (aggregate (map snd entries_ABZ)) ''M'' level_50_buy = Some 7
   \<and> (\<Sum>k \<in> entries_at (map_of entries_ABZ) ''M'' level_50_buy.
         remaining_of (map_of entries_ABZ) k) = 7
   \<and> volume_at (aggregate (map snd entries_ABZ)) ''M'' level_60_sell = Some 0"
proof -
  have r: "range_of (map_of entries_ABZ) entries_ABZ"
    by (simp add: range_of_def entries_ABZ_def)
  have v: "volume_at (aggregate (map snd entries_ABZ)) ''M'' level_50_buy = Some 7"
    by (simp add: volume_at_def aggregate_def addVolume_def levelOf_def entries_ABZ_def
        order_A_def order_B_def order_Z_def level_50_buy_def)
  have z: "volume_at (aggregate (map snd entries_ABZ)) ''M'' level_60_sell = Some 0"
    by (simp add: volume_at_def aggregate_def addVolume_def levelOf_def entries_ABZ_def
        order_A_def order_B_def order_Z_def level_60_sell_def)
  show ?thesis
    using aggregate_sums_entries [OF r, where m = "''M''" and lev = level_50_buy, THEN conjunct1] r v z
    by (simp split: if_splits)
qed

text \<open>
  C10. The total of the depth over every market and level is the \<^verbatim>\<open>int64\<close> sum of the
  remaining quantities of all entries of the table, so no quantity is lost or counted
  twice; and two visits of the same table in different orders give the same depth.
\<close>

theorem total_volume_is_table_total:
  assumes "range_of (liveOrders :: 'p LiveOrders) es"
  shows "total_volume (aggregate (map snd es)) = (\<Sum>k \<in> dom liveOrders. remaining_of liveOrders k)
       \<and> (\<forall>es'. range_of liveOrders es' \<longrightarrow> aggregate (map snd es') = aggregate (map snd es))"
proof -
  have "total_volume (aggregate (map snd es)) = sum_list (map Remaining (map snd es))"
    by (rule total_volume_aggregate)
  also have "\<dots> = (\<Sum>k \<in> dom liveOrders. remaining_of liveOrders k)"
    by (rule range_of_total [OF assms])
  finally have a: "total_volume (aggregate (map snd es))
      = (\<Sum>k \<in> dom liveOrders. remaining_of liveOrders k)" .
  have "aggregate (map snd es') = aggregate (map snd es)" if "range_of liveOrders es'" for es'
    using that assms by (rule aggregate_order_independent)
  then show ?thesis
    using a by blast
qed

theorem total_volume_is_table_total_witness:
  "range_of (map_of entries_ABZ) entries_ABZ
   \<and> range_of (map_of entries_ABZ) (rev entries_ABZ)
   \<and> aggregate (map snd (rev entries_ABZ)) = aggregate (map snd entries_ABZ)
   \<and> total_volume (aggregate (map snd entries_ABZ)) = 7
   \<and> (\<Sum>k \<in> dom (map_of entries_ABZ). remaining_of (map_of entries_ABZ) k) = 7"
proof -
  have r: "range_of (map_of entries_ABZ) entries_ABZ"
    by (simp add: range_of_def entries_ABZ_def)
  have r': "range_of (map_of entries_ABZ) (rev entries_ABZ)"
  proof -
    have "distinct (map fst entries_ABZ)" and "distinct (map fst (rev entries_ABZ))"
      by (simp_all add: entries_ABZ_def)
    then have "map_of (rev entries_ABZ) = map_of entries_ABZ"
      by (simp only: map_of_inject_set set_rev)
    then show ?thesis
      by (simp add: range_of_def entries_ABZ_def)
  qed
  have s: "(\<Sum>k \<in> dom (map_of entries_ABZ). remaining_of (map_of entries_ABZ) k) = 7"
    by (simp add: entries_ABZ_def remaining_of_def order_A_def order_B_def order_Z_def)
  note t = total_volume_is_table_total [OF r]
  have a: "total_volume (aggregate (map snd entries_ABZ)) = 7"
    using t s by simp
  have b: "aggregate (map snd (rev entries_ABZ)) = aggregate (map snd entries_ABZ)"
    using t r' by blast
  show ?thesis
    using a b r r' s by simp
qed

text \<open>
  The sums above are \<^verbatim>\<open>int64\<close> sums. Read as signed numbers they are the sums of the
  integers as long as the absolute values add up to less than \<open>2^63\<close>.
\<close>

lemma sint_add_int64:
  fixes a b :: int64
  assumes "- (2 ^ 63) \<le> sint a + sint b" and "sint a + sint b < 2 ^ 63"
  shows "sint (a + b) = sint a + sint b"
proof -
  have "size a - 1 = 63"
    by (simp add: word_size)
  then have "sint (a + b) = signed_take_bit 63 (sint a + sint b)"
    using sint_word_ariths(1) [of a b] by simp
  also have "\<dots> = sint a + sint b"
    using assms by (rule signed_take_bit_int_eq_self)
  finally show ?thesis .
qed

lemma sint_sum_int64:
  fixes f :: "'a \<Rightarrow> int64"
  assumes "finite S" and "(\<Sum>k \<in> S. \<bar>sint (f k)\<bar>) < 2 ^ 63"
  shows "sint (\<Sum>k \<in> S. f k) = (\<Sum>k \<in> S. sint (f k))"
  using assms
proof (induction S)
  case empty
  then show ?case by simp
next
  case (insert x F)
  have b: "(\<Sum>k \<in> F. \<bar>sint (f k)\<bar>) < 2 ^ 63" and
    c: "\<bar>sint (f x)\<bar> + (\<Sum>k \<in> F. \<bar>sint (f k)\<bar>) < 2 ^ 63"
    using insert.prems insert.hyps by (simp_all add: abs_if split: if_splits)
  have i: "sint (\<Sum>k \<in> F. f k) = (\<Sum>k \<in> F. sint (f k))"
    using insert.IH b by simp
  have "\<bar>\<Sum>k \<in> F. sint (f k)\<bar> \<le> (\<Sum>k \<in> F. \<bar>sint (f k)\<bar>)"
    by (rule sum_abs)
  then have "- (2 ^ 63) \<le> sint (f x) + sint (\<Sum>k \<in> F. f k)"
    and "sint (f x) + sint (\<Sum>k \<in> F. f k) < 2 ^ 63"
    using c unfolding i by linarith+
  then have "sint (f x + (\<Sum>k \<in> F. f k)) = sint (f x) + sint (\<Sum>k \<in> F. f k)"
    by (rule sint_add_int64)
  then show ?case
    using insert.hyps i by simp
qed

section \<open>Properties of the scan\<close>

text \<open>
  The scan leaves every field of a row but the price as it is, and gives every row a
  \<^verbatim>\<open>big.Int\<close> of its own: the pointers of the scanned orders are the next free addresses,
  all different.
\<close>

lemma isLive_withPrice: "isLive (withPrice order p) = isLive order"
  by (simp add: isLive_def withPrice_def)

lemma ID_withPrice: "ID (withPrice order p) = ID order"
  by (simp add: withPrice_def)

lemma Price_withPrice: "Price (withPrice order p) = p"
  by (simp add: withPrice_def)

lemma scanOrders_length: "length (fst (scanOrders h rows)) = length rows"
  by (induction rows arbitrary: h) (simp_all add: Let_def)

lemma scanOrders_heap: "snd (scanOrders h rows) = h @ map (\<lambda>row. fst (Price row)) rows"
  by (induction rows arbitrary: h) (simp_all add: Let_def scanPrice_def)

lemma scanOrders_pointers:
  "map (\<lambda>order. value_ptr (Price order)) (fst (scanOrders h rows))
     = [length h..<length h + length rows]"
proof (induction rows arbitrary: h)
  case Nil
  then show ?case by simp
next
  case (Cons row rows)
  have "[length h..<length h + length (row # rows)]
        = length h # [length (h @ [fst (Price row)])..<length (h @ [fst (Price row)]) + length rows]"
    by (simp add: upt_rec)
  then show ?case
    by (simp add: Let_def scanPrice_def Cons.IH Price_withPrice)
qed

lemma scanOrders_distinct:
  "distinct (map (\<lambda>order. value_ptr (Price order)) (fst (scanOrders h rows)))"
  by (simp add: scanOrders_pointers)

section \<open>The example orders in \<^verbatim>\<open>main.go\<close>\<close>

text \<open>
  The first minute of the example run of \<^verbatim>\<open>main.go\<close> scans the two orders, which both
  have the price 50, to two keys.
\<close>

lemma scanOrders_AB:
  "scanOrders [] [db_order_A, db_order_B] = ([mem_order_A, mem_order_B], [50, 50])"
  by (simp add: Let_def scanPrice_def mem_order_A_def mem_order_B_def db_order_A_def db_order_B_def)

lemma selectOrders_first_minute: "selectOrders db_rows_AB 0 Minute = [db_order_A, db_order_B]"
  by (simp add: selectOrders_def selectRows_def db_rows_AB_def Minute_def)

lemma selectOrders_second_minute: "selectOrders db_rows_AB Minute (Minute + Minute) = []"
  by (simp add: selectOrders_def selectRows_def db_rows_AB_def Minute_def)

lemma live_mem_AB: "isLive mem_order_A" "isLive mem_order_B"
  by (simp_all add: isLive_def mem_order_A_def mem_order_B_def withPrice_def db_order_A_def db_order_B_def)

lemma ID_mem_AB: "ID mem_order_A = ''A''" "ID mem_order_B = ''B''"
  by (simp_all add: mem_order_A_def mem_order_B_def withPrice_def db_order_A_def db_order_B_def)

lemma applyOrders_mem_AB: "applyOrders isLive [mem_order_A, mem_order_B] Map.empty = mem_table_AB"
  by (simp add: applyOrders_def applyOrder_def live_mem_AB ID_mem_AB mem_table_AB_def)

lemma applyOrders_none: "applyOrders isLive [] mem_table_AB = mem_table_AB"
  by (simp add: applyOrders_def)

lemma range_mem_table_AB:
  "filter (\<lambda>e. mem_table_AB (fst e) = Some (snd e)) [(''A'', mem_order_A), (''B'', mem_order_B)]
     = [(''A'', mem_order_A), (''B'', mem_order_B)]"
  by (simp add: mem_table_AB_def)

lemma aggregate_mem_AB:
  "aggregate [mem_order_A, mem_order_B] ''M'' = Some [mem_level_A \<mapsto> 3, mem_level_B \<mapsto> 4]"
  by (simp add: aggregate_def addVolume_def levelOf_def mem_order_A_def mem_order_B_def
      withPrice_def db_order_A_def db_order_B_def mem_level_A_def mem_level_B_def)

lemma card_mem_AB: "card (dom mem_table_AB) = 2"
  by (simp add: mem_table_AB_def)

lemma mem_levels_differ: "mem_level_A \<noteq> mem_level_B"
  by (simp add: mem_level_A_def mem_level_B_def)

lemma scanOrders_nothing: "scanOrders h [] = ([], h)"
  by simp

lemma doBucket_env_main:
  assumes "selectOrders db_rows_AB start endt = rows"
    and "scanOrders h rows = (orders, [50, 50])"
    and "applyOrders isLive orders t = mem_table_AB"
  shows "doBucket (env_main\<lparr>write_fails := w\<rparr>) start endt (t, h)
     = Ok ((mem_table_AB, [50, 50]),
           \<lparr>depth_records = filter (\<lambda>r. \<not> w (DepthMarketFile ''M'' endt) r)
               [[FMarket ''M'', FTime endt, FSide SideBuy, FPrice (50, 0), FInt 3],
                [FMarket ''M'', FTime endt, FSide SideBuy, FPrice (50, 0), FInt 4]],
             live_records = [], printed = (endt, length rows, 2)\<rparr>)"
proof -
  let ?env = "env_main\<lparr>write_fails := w\<rparr>"
  let ?prices = "[mem_level_A \<mapsto> 3, mem_level_B \<mapsto> 4] :: Decimal Prices"
  have l: "length orders = length rows"
    using scanOrders_length [of h rows] assms(2) by simp
  have e: "select_fails ?env start endt = False" "orders_table ?env = db_rows_AB"
    "create_fails ?env (DepthMarketFile ''M'' endt) = False" "write_fails ?env = w"
    by (simp_all add: env_main_def)
  have r: "range_liveOrders ?env mem_table_AB = [(''A'', mem_order_A), (''B'', mem_order_B)]"
    by (simp add: env_main_def mem_table_AB_def)
  have g: "range_depth ?env (aggregate [mem_order_A, mem_order_B]) = [(''M'', ?prices)]"
    by (simp add: env_main_def aggregate_mem_AB)
  have k: "sorted_keys ?env ?prices = [mem_level_A, mem_level_B]"
    using mem_levels_differ by (simp add: env_main_def)
  have d: "depthRecord [50, 50] ''M'' endt ?prices mem_level_A
             = [FMarket ''M'', FTime endt, FSide SideBuy, FPrice (50, 0), FInt 3]"
    "depthRecord [50, 50] ''M'' endt ?prices mem_level_B
             = [FMarket ''M'', FTime endt, FSide SideBuy, FPrice (50, 0), FInt 4]"
    using mem_levels_differ
    by (simp_all add: depthRecord_def decimalString_def bigInt_def vol_of_def)
       (simp_all add: mem_level_A_def mem_level_B_def)
  have m: "writeMarkets ?env [50, 50] endt [(''M'', ?prices)]
           = Ok (filter (\<lambda>r. \<not> w (DepthMarketFile ''M'' endt) r)
               [[FMarket ''M'', FTime endt, FSide SideBuy, FPrice (50, 0), FInt 3],
                [FMarket ''M'', FTime endt, FSide SideBuy, FPrice (50, 0), FInt 4]])"
    by (simp only: writeMarkets.simps e k Let_def list.map d if_False result.case append_Nil2)
  show ?thesis
    by (simp only: doBucket_def e assms Let_def fst_conv snd_conv if_False list.map r g m
        result.case card_mem_AB l)
qed

section \<open>Properties of the writers\<close>

text \<open>When no call fails, a bucket does not fail.\<close>

lemma writeRecords_ok: "\<forall>r. \<not> fails r \<Longrightarrow> writeRecords fails rs = Inr rs"
  by (induction rs) auto

lemma writeDepthMarkets_ok:
  "\<forall>f r. \<not> write_fails env f r \<Longrightarrow> \<exists>ws. writeDepthMarkets env endt ms = Inr ws"
  by (induction ms) (auto simp: writeRecords_ok Let_def)

lemma writeMarkets_ok:
  "\<forall>f. \<not> create_fails env f \<Longrightarrow> \<exists>ws. writeMarkets env h endt ms = Ok ws"
  by (induction ms) (auto simp: Let_def)

lemma doBucket_ok:
  assumes "\<forall>s e. \<not> select_fails env s e" and "\<forall>f. \<not> create_fails env f"
  shows "\<exists>r. doBucket env start endt state = Ok r"
proof -
  let ?scanned = "scanOrders (snd state) (selectOrders (orders_table env) start endt)"
  obtain ws where "writeMarkets env (snd ?scanned) endt
      (range_depth env (aggregate (map snd (range_liveOrders env
         (applyOrders isLive (fst ?scanned) (fst state)))))) = Ok ws"
    using writeMarkets_ok [OF assms(2)] by blast
  then show ?thesis
    using assms(1) by (simp add: doBucket_def Let_def)
qed

lemma doBucket_p0_ok:
  assumes "\<forall>s e. \<not> select_fails env s e" and "\<forall>f. \<not> create_fails env f"
    and "\<forall>f r. \<not> write_fails env f r"
  shows "\<exists>r. doBucket_p0 env start endt t = Ok r"
proof -
  let ?t = "applyOrders isLive_p0 (selectOrders (orders_table env) start endt) t"
  obtain ws where "writeDepthMarkets env endt
      (range_depth env (aggregate (map snd (range_liveOrders env ?t)))) = Inr ws"
    using writeDepthMarkets_ok [OF assms(3)] by blast
  then have "writeDepth env endt (aggregate (map snd (range_liveOrders env ?t))) = Inr ws"
    using assms(2) by (simp add: writeDepth_def)
  moreover have "\<exists>ls. writeLiveOrders env endt ?t = Inr ls"
    using assms(2,3) by (simp add: writeLiveOrders_def writeRecords_ok)
  ultimately show ?thesis
    using assms(1) by (auto simp: doBucket_p0_def Let_def)
qed

lemma env_main_no_failure:
  "\<forall>s e. \<not> select_fails env_main s e" "\<forall>f. \<not> create_fails env_main f"
  "\<forall>f r. \<not> write_fails env_main f r" "\<forall>i. last_block_time env_main i = Inr (2 * Minute)"
  by (simp_all add: env_main_def)

lemma env_ok_no_failure:
  "\<forall>s e. \<not> select_fails env_ok s e" "\<forall>f. \<not> create_fails env_ok f"
  "\<forall>f r. \<not> write_fails env_ok f r" "\<forall>i. last_block_time env_ok i = Inr 10"
  by (simp_all add: env_ok_def)

section \<open>Properties of the query of a bucket\<close>

lemma selectRows_mset:
  "mset (selectRows tbl start endt) = filter_mset (\<lambda>r. start \<le> vega_time r \<and> vega_time r < endt) (mset tbl)"
  by (simp add: selectRows_def)

lemma selectRows_set:
  "r \<in> set (selectRows tbl start endt) \<longleftrightarrow> r \<in> set tbl \<and> start \<le> vega_time r \<and> vega_time r < endt"
  by (auto simp: selectRows_def)

lemma selectRows_sorted:
  "sorted (map (\<lambda>r. (vega_time r, seq_num r)) (selectRows tbl start endt))"
  by (simp add: selectRows_def)

lemma doBucket_table:
  "doBucket env start endt (t, h) = Ok ((t', h'), rep) \<Longrightarrow>
     t' = applyOrders isLive
            (fst (scanOrders h (map selected (selectRows (orders_table env) start endt)))) t
     \<and> h' = snd (scanOrders h (map selected (selectRows (orders_table env) start endt)))"
  by (auto simp: doBucket_def Let_def selectOrders_def split: if_splits result.splits)

text \<open>The scan changes the price of a row only.\<close>

lemma withPrice_withPrice: "withPrice (withPrice order p) q = withPrice order q"
  by (simp add: withPrice_def)

lemma scanOrders_fields:
  "map (\<lambda>order. withPrice order ()) (fst (scanOrders h rows)) = map (\<lambda>order. withPrice order ()) rows"
  by (induction rows arbitrary: h) (simp_all add: Let_def withPrice_withPrice)

lemma doBucket_p0_table:
  "doBucket_p0 env start endt t = Ok (t', rep) \<Longrightarrow>
     t' = applyOrders isLive_p0 (map selected (selectRows (orders_table env) start endt)) t"
  by (auto simp: doBucket_p0_def Let_def selectOrders_def split: if_splits sum.splits result.splits)

text \<open>
  C6. The bucket from \<open>start\<close> to \<open>endt\<close> processes a row of the table exactly when its
  time \<open>t\<close> satisfies \<open>start \<le> t < endt\<close>, each such row as often as the table has it. A
  row whose time is \<open>endt\<close> is not processed in this bucket and is processed in the next
  one, which starts at \<open>endt\<close>. The table that \<^verbatim>\<open>doBucket\<close> leaves is the result of applying
  exactly the selected rows, in both source files; in \<^verbatim>\<open>main.go\<close> they are applied as the
  scan leaves them, which differ from the rows in the price only.
\<close>

theorem bucket_half_open:
  "(r \<in> set (selectRows tbl start endt) \<longleftrightarrow> r \<in> set tbl \<and> start \<le> vega_time r \<and> vega_time r < endt)
   \<and> mset (selectRows tbl start endt)
       = filter_mset (\<lambda>r. start \<le> vega_time r \<and> vega_time r < endt) (mset tbl)
   \<and> (vega_time r = endt \<longrightarrow> r \<notin> set (selectRows tbl start endt)
        \<and> (r \<in> set tbl \<and> 0 < W \<longrightarrow> r \<in> set (selectRows tbl endt (endt + W))))
   \<and> (\<forall>t h t' h' rep. doBucket envm start endt (t, h) = Ok ((t', h'), rep) \<longrightarrow>
        t' = applyOrders isLive
               (fst (scanOrders h (map selected (selectRows (orders_table envm) start endt)))) t
        \<and> map (\<lambda>order. withPrice order ())
              (fst (scanOrders h (map selected (selectRows (orders_table envm) start endt))))
            = map (\<lambda>order. withPrice order ())
                (map selected (selectRows (orders_table envm) start endt)))
   \<and> (\<forall>t t' rep. doBucket_p0 env start endt t = Ok (t', rep) \<longrightarrow>
        t' = applyOrders isLive_p0 (map selected (selectRows (orders_table env) start endt)) t)"
  using doBucket_table [of envm start endt] doBucket_p0_table [of env start endt]
  by (simp add: selectRows_set selectRows_mset scanOrders_fields)

theorem bucket_half_open_witness:
  "row_B \<in> set rows_AB \<and> vega_time row_B = 5 \<and> (0::int) < 5
   \<and> row_B \<notin> set (selectRows rows_AB 0 5)
   \<and> row_B \<in> set (selectRows rows_AB 5 (5 + 5))
   \<and> row_A \<in> set (selectRows rows_AB 0 5)
   \<and> (\<exists>rep. doBucket env_main 0 5 (Map.empty, []) = Ok (([''A'' \<mapsto> mem_order_A], [50]), rep))
   \<and> (\<exists>rep. doBucket_p0 env_ok 0 5 Map.empty = Ok ([''A'' \<mapsto> order_A], rep))"
proof -
  note t = bucket_half_open [where tbl = rows_AB and start = 0 and endt = 5 and W = 5
      and env = env_ok and envm = env_main]
  have m: "row_B \<in> set rows_AB" "row_A \<in> set rows_AB" "vega_time row_B = 5" "vega_time row_A = 0"
    by (simp_all add: rows_AB_def row_A_def row_B_def)
  have a: "row_B \<notin> set (selectRows rows_AB 0 5) \<and> row_B \<in> set (selectRows rows_AB 5 (5 + 5))"
    using t [where r = row_B] m by simp
  have c: "row_A \<in> set (selectRows rows_AB 0 5)"
    using t [where r = row_A] m by simp
  have s: "selectRows rows_AB 0 5 = [row_A]"
    by (simp add: selectRows_def rows_AB_def row_A_def row_B_def)
  obtain t' rep where d: "doBucket_p0 env_ok 0 5 Map.empty = Ok (t', rep)"
    using doBucket_p0_ok [OF env_ok_no_failure(1,2,3), of 0 5 Map.empty] by auto
  have o: "orders_table env_ok = rows_AB"
    by (simp add: env_ok_def)
  then have "t' = applyOrders isLive_p0 (map selected (selectRows rows_AB 0 5)) Map.empty"
    using t [where r = row_A] d by simp
  then have p: "t' = [''A'' \<mapsto> order_A]"
    by (simp add: s applyOrders_def applyOrder_def isLive_p0_def row_A_def order_A_def)
  obtain u' h' rep' where g: "doBucket env_main 0 5 (Map.empty, []) = Ok ((u', h'), rep')"
    using doBucket_ok [OF env_main_no_failure(1,2), of 0 5 "(Map.empty, [])"] by (metis surj_pair)
  have n: "map selected (selectRows (orders_table env_main) 0 5) = [db_order_A]"
    by (simp add: env_main_def selectRows_def db_rows_AB_def)
  have k: "scanOrders [] [db_order_A] = ([mem_order_A], [50])"
    by (simp add: Let_def scanPrice_def mem_order_A_def db_order_A_def)
  have "u' = applyOrders isLive [mem_order_A] Map.empty \<and> h' = [50]"
    using doBucket_table [OF g] unfolding n k by simp
  then have q: "u' = [''A'' \<mapsto> mem_order_A] \<and> h' = [50]"
    using t [where r = row_A] g
    by (simp add: applyOrders_def applyOrder_def live_mem_AB ID_mem_AB)
  show ?thesis
    using a c d g m p q by simp
qed

section \<open>Properties of the order of the levels\<close>

lemma sorted_wrt_distinct:
  "sorted_wrt P xs \<Longrightarrow> distinct xs \<Longrightarrow> sorted_wrt (\<lambda>a b. P a b \<and> a \<noteq> b) xs"
  by (induction xs) auto

lemma sorted_levels_descending:
  assumes "sorted_levels val prices sprices"
  shows "distinct sprices \<and> set sprices = dom prices
     \<and> sorted_wrt (\<lambda>a b. val (price a) \<ge> val (price b)) sprices
     \<and> (inj val \<longrightarrow> sorted_wrt (\<lambda>a b. side a = side b \<longrightarrow> val (price a) > val (price b)) sprices)"
proof -
  obtain ks where ks: "distinct ks" "set ks = dom prices" "mset sprices = mset ks"
    and s: "sorted_wrt (\<lambda>a b. \<not> level_before val b a) sprices"
    using assms by (auto simp: sorted_levels_def maps_Keys_def sort_Slice_def)
  have d: "distinct sprices" using ks(1,3) by (metis mset_eq_imp_distinct_iff)
  have e: "set sprices = dom prices" using ks(2,3) by (metis mset_eq_setD)
  have o: "sorted_wrt (\<lambda>a b. val (price a) \<ge> val (price b)) sprices"
    using s by (simp add: level_before_def not_less)
  have "sorted_wrt (\<lambda>a b. side a = side b \<longrightarrow> val (price a) > val (price b)) sprices" if i: "inj val"
  proof -
    have "sorted_wrt (\<lambda>a b. val (price a) \<ge> val (price b) \<and> a \<noteq> b) sprices"
      using o d by (rule sorted_wrt_distinct)
    then show ?thesis
    proof (rule sorted_wrt_mono_rel [rotated])
      fix a b :: "'a Level"
      assume "val (price b) \<le> val (price a) \<and> a \<noteq> b"
      then show "side a = side b \<longrightarrow> val (price b) < val (price a)"
        using i by (cases a; cases b) (auto simp: inj_def order_less_le)
    qed
  qed
  then show ?thesis using d e o by simp
qed

text \<open>What the writers write, when they return no error.\<close>

lemma writeRecords_Inr: "writeRecords fails rs = Inr written \<Longrightarrow> written = rs"
  by (induction rs arbitrary: written) (auto split: if_splits sum.splits)

lemma writeDepthMarkets_Inr:
  "writeDepthMarkets env endt ms = Inr written \<Longrightarrow>
     written = concat (map (\<lambda>e. map (depthRecord_p0 endt (fst e) (snd e)) (sorted_keys env (snd e))) ms)"
proof (induction ms arbitrary: written)
  case Nil
  then show ?case by simp
next
  case (Cons e ms)
  obtain m prices where e: "e = (m, prices)" by (cases e)
  show ?case
    using Cons.prems Cons.IH
    by (auto simp: e Let_def split: sum.splits dest: writeRecords_Inr)
qed

lemma writeMarkets_Ok:
  "writeMarkets env h endt ms = Ok written \<Longrightarrow>
     written = concat (map (\<lambda>e. filter (\<lambda>r. \<not> write_fails env (DepthMarketFile (fst e) endt) r)
                 (map (depthRecord h (fst e) endt (snd e)) (sorted_keys env (snd e)))) ms)"
proof (induction ms arbitrary: written)
  case Nil
  then show ?case by simp
next
  case (Cons e ms)
  obtain m prices where e: "e = (m, prices)" by (cases e)
  show ?case
    using Cons.prems Cons.IH
    by (auto simp: e Let_def split: if_splits result.splits)
qed

text \<open>The rows of one market are the rows written in the visit of that market.\<close>

lemma filter_concat_one:
  assumes "distinct (map fst ms)" and "(k, v) \<in> set ms"
    and "\<forall>e \<in> set ms. \<forall>r \<in> set (f e). Q r \<longleftrightarrow> fst e = k"
  shows "filter Q (concat (map f ms)) = f (k, v)"
  using assms
proof (induction ms)
  case Nil
  then show ?case by simp
next
  case (Cons e ms)
  show ?case
  proof (cases "e = (k, v)")
    case True
    then have n: "\<forall>e' \<in> set ms. fst e' \<noteq> k"
      using Cons.prems(1) by auto
    have "filter Q (concat (map f ms)) = []"
      using n Cons.prems(3) by (auto simp: filter_empty_conv)
    moreover have "filter Q (f e) = f e"
      using Cons.prems(3) True by (auto simp: filter_id_conv)
    ultimately show ?thesis
      using True by simp
  next
    case False
    then have i: "(k, v) \<in> set ms"
      using Cons.prems(2) by simp
    then have "k \<in> fst ` set ms"
      by force
    then have "fst e \<noteq> k"
      using Cons.prems(1) by auto
    then have "filter Q (f e) = []"
      using Cons.prems(3) by (auto simp: filter_empty_conv)
    moreover have "filter Q (concat (map f ms)) = f (k, v)"
      using Cons.IH Cons.prems i by simp
    ultimately show ?thesis
      by simp
  qed
qed

lemma market_rows_p0:
  assumes "writeDepthMarkets env endt ms = Inr written" and "range_of depth ms"
    and "depth m = Some prices"
  shows "market_rows m written = map (depthRecord_p0 endt m prices) (sorted_keys env prices)"
proof -
  have d: "distinct (map fst ms)" and i: "(m, prices) \<in> set ms"
    using assms(2,3) by (auto simp: range_of_def dest: map_of_SomeD)
  have "filter (\<lambda>r. FMarket m \<in> set r)
          (concat (map (\<lambda>e. map (depthRecord_p0 endt (fst e) (snd e)) (sorted_keys env (snd e))) ms))
        = map (depthRecord_p0 endt (fst (m, prices)) (snd (m, prices))) (sorted_keys env (snd (m, prices)))"
    using d i by (rule filter_concat_one) (auto simp: depthRecord_p0_def)
  then show ?thesis
    using writeDepthMarkets_Inr [OF assms(1)] by (simp add: market_rows_def)
qed

lemma market_rows_main:
  assumes "writeMarkets env h endt ms = Ok written" and "range_of depth ms"
    and "depth m = Some prices"
  shows "market_rows m written
     = filter (\<lambda>r. \<not> write_fails env (DepthMarketFile m endt) r)
         (map (depthRecord h m endt prices) (sorted_keys env prices))"
proof -
  have d: "distinct (map fst ms)" and i: "(m, prices) \<in> set ms"
    using assms(2,3) by (auto simp: range_of_def dest: map_of_SomeD)
  have "filter (\<lambda>r. FMarket m \<in> set r)
          (concat (map (\<lambda>e. filter (\<lambda>r. \<not> write_fails env (DepthMarketFile (fst e) endt) r)
                 (map (depthRecord h (fst e) endt (snd e)) (sorted_keys env (snd e)))) ms))
        = filter (\<lambda>r. \<not> write_fails env (DepthMarketFile (fst (m, prices)) endt) r)
                 (map (depthRecord h (fst (m, prices)) endt (snd (m, prices)))
                    (sorted_keys env (snd (m, prices))))"
    using d i by (rule filter_concat_one) (auto simp: depthRecord_def)
  then show ?thesis
    using writeMarkets_Ok [OF assms(1)] by (simp add: market_rows_def)
qed

text \<open>The order of the keys is the order of the rows.\<close>

lemma price_descending_p0:
  assumes "sorted_wrt (\<lambda>a b. val (price a) \<ge> val (price b)) sprices"
  shows "price_descending val (map (depthRecord_p0 endt m prices) sprices)"
  using assms by (simp add: price_descending_def sorted_wrt_map depthRecord_p0_def)

lemma price_strictly_descending_p0:
  assumes "sorted_wrt (\<lambda>a b. side a = side b \<longrightarrow> val (price a) > val (price b)) sprices"
  shows "price_strictly_descending_by_side val (map (depthRecord_p0 endt m prices) sprices)"
  using assms
  by (simp add: price_strictly_descending_by_side_def sorted_wrt_map depthRecord_p0_def)

lemma price_descending_main:
  assumes "sorted_wrt (\<lambda>a b. decimal_val h (price a) \<ge> decimal_val h (price b)) sprices"
  shows "price_descending numeric_val (filter P (map (depthRecord h m endt prices) sprices))"
proof -
  have "sorted_wrt (\<lambda>r r'. \<forall>p p'. FPrice p \<in> set r \<and> FPrice p' \<in> set r' \<longrightarrow> numeric_val p' \<le> numeric_val p)
          (map (depthRecord h m endt prices) sprices)"
    using assms
    by (simp add: sorted_wrt_map depthRecord_def decimal_val_def) (erule sorted_wrt_mono_rel [rotated], simp)
  then show ?thesis
    unfolding price_descending_def by (rule sorted_wrt_filter)
qed

lemma filter_concat_none:
  assumes "\<forall>e \<in> set ms. \<forall>r \<in> set (f e). \<not> Q r"
  shows "filter Q (concat (map f ms)) = []"
  using assms by (induction ms) (auto simp: filter_empty_conv)

lemma market_rows_p0_none:
  assumes "writeDepthMarkets env endt ms = Inr written" and "range_of depth ms"
    and "depth m = None"
  shows "market_rows m written = []"
proof -
  have "\<forall>e \<in> set ms. fst e \<noteq> m"
    using assms(2,3) by (auto simp: range_of_def dest: map_of_SomeD weak_map_of_SomeI)
  then have "filter (\<lambda>r. FMarket m \<in> set r)
          (concat (map (\<lambda>e. map (depthRecord_p0 endt (fst e) (snd e)) (sorted_keys env (snd e))) ms)) = []"
    by (intro filter_concat_none) (auto simp: depthRecord_p0_def)
  then show ?thesis
    using writeDepthMarkets_Inr [OF assms(1)] by (simp add: market_rows_def)
qed

lemma market_rows_main_none:
  assumes "writeMarkets env h endt ms = Ok written" and "range_of depth ms"
    and "depth m = None"
  shows "market_rows m written = []"
proof -
  have "\<forall>e \<in> set ms. fst e \<noteq> m"
    using assms(2,3) by (auto simp: range_of_def dest: map_of_SomeD weak_map_of_SomeI)
  then have "filter (\<lambda>r. FMarket m \<in> set r)
          (concat (map (\<lambda>e. filter (\<lambda>r. \<not> write_fails env (DepthMarketFile (fst e) endt) r)
                 (map (depthRecord h (fst e) endt (snd e)) (sorted_keys env (snd e)))) ms)) = []"
    by (intro filter_concat_none) (auto simp: depthRecord_def)
  then show ?thesis
    using writeMarkets_Ok [OF assms(1)] by (simp add: market_rows_def)
qed

lemma doBucket_p0_report:
  assumes "doBucket_p0 env start endt t = Ok (t', rep)"
  shows "writeDepthMarkets env endt (range_depth env (aggregate (map snd (range_liveOrders env t'))))
           = Inr (depth_records rep)"
  using assms
  by (auto simp: doBucket_p0_def writeDepth_def Let_def split: if_splits sum.splits)

lemma doBucket_report:
  assumes "doBucket env start endt st = Ok (st', rep)"
  shows "writeMarkets env (snd st') endt
           (range_depth env (aggregate (map snd (range_liveOrders env (fst st')))))
           = Ok (depth_records rep)"
  using assms
  by (auto simp: doBucket_def Let_def split: if_splits result.splits)

text \<open>
  C4, as amended. In the report of a bucket that returned without error, with the depth
  visited as Go may visit it, the rows of a market are the records of the keys of the
  market in the order of the sorted keys, each key once (in \<^verbatim>\<open>main.go\<close> without the
  records whose write failed), and a market that is not in the depth has no row. The
  prices of the rows of a market are in descending order, not strictly: rows may share a
  price. In the second source file, where equal values are equal prices (\<^verbatim>\<open>uint256\<close>),
  the rows of one side are in strictly descending order, so only a buy and a sell row
  share a price. Nothing fixes the order of two rows with the same price.
\<close>

theorem depth_report_descending:
  "(doBucket_p0 env start endt t = Ok (t', rep)
      \<and> visits_depth val env (aggregate (map snd (range_liveOrders env t')))
    \<longrightarrow> (aggregate (map snd (range_liveOrders env t')) m = None
           \<longrightarrow> market_rows m (depth_records rep) = [])
      \<and> (\<forall>prices. aggregate (map snd (range_liveOrders env t')) m = Some prices
           \<longrightarrow> market_rows m (depth_records rep)
                 = map (depthRecord_p0 endt m prices) (sorted_keys env prices)
               \<and> distinct (sorted_keys env prices) \<and> set (sorted_keys env prices) = dom prices)
      \<and> price_descending val (market_rows m (depth_records rep))
      \<and> (inj val \<longrightarrow> price_strictly_descending_by_side val (market_rows m (depth_records rep))))
   \<and> (doBucket envm start endt st = Ok (st', repm)
      \<and> visits_depth (decimal_val (snd st')) envm
           (aggregate (map snd (range_liveOrders envm (fst st'))))
    \<longrightarrow> (aggregate (map snd (range_liveOrders envm (fst st'))) m = None
           \<longrightarrow> market_rows m (depth_records repm) = [])
      \<and> (\<forall>prices. aggregate (map snd (range_liveOrders envm (fst st'))) m = Some prices
           \<longrightarrow> market_rows m (depth_records repm)
                 = filter (\<lambda>r. \<not> write_fails envm (DepthMarketFile m endt) r)
                     (map (depthRecord (snd st') m endt prices) (sorted_keys envm prices))
               \<and> distinct (sorted_keys envm prices) \<and> set (sorted_keys envm prices) = dom prices)
      \<and> price_descending numeric_val (market_rows m (depth_records repm)))"
proof (intro conjI impI)
  let ?d = "aggregate (map snd (range_liveOrders env t'))"
  assume a: "doBucket_p0 env start endt t = Ok (t', rep) \<and> visits_depth val env ?d"
  then have w: "writeDepthMarkets env endt (range_depth env ?d) = Inr (depth_records rep)"
    using doBucket_p0_report by blast
  have r: "range_of ?d (range_depth env ?d)"
    and s: "\<And>prices. ?d m = Some prices \<Longrightarrow> sorted_levels val prices (sorted_keys env prices)"
    using a by (auto simp: visits_depth_def)
  show "?d m = None \<Longrightarrow> market_rows m (depth_records rep) = []"
    by (rule market_rows_p0_none [OF w r])
  show "\<forall>prices. ?d m = Some prices
           \<longrightarrow> market_rows m (depth_records rep)
                 = map (depthRecord_p0 endt m prices) (sorted_keys env prices)
               \<and> distinct (sorted_keys env prices) \<and> set (sorted_keys env prices) = dom prices"
    using market_rows_p0 [OF w r] sorted_levels_descending [OF s] by blast
  show "price_descending val (market_rows m (depth_records rep))"
  proof (cases "?d m")
    case None
    then show ?thesis
      by (simp add: market_rows_p0_none [OF w r] price_descending_def)
  next
    case (Some prices)
    then show ?thesis
      using market_rows_p0 [OF w r Some] sorted_levels_descending [OF s [OF Some]]
      by (simp add: price_descending_p0)
  qed
  show "price_strictly_descending_by_side val (market_rows m (depth_records rep))" if i: "inj val"
  proof (cases "?d m")
    case None
    then show ?thesis
      by (simp add: market_rows_p0_none [OF w r] price_strictly_descending_by_side_def)
  next
    case (Some prices)
    then show ?thesis
      using market_rows_p0 [OF w r Some] sorted_levels_descending [OF s [OF Some]] i
      by (simp add: price_strictly_descending_p0)
  qed
next
  let ?d = "aggregate (map snd (range_liveOrders envm (fst st')))"
  assume a: "doBucket envm start endt st = Ok (st', repm)
      \<and> visits_depth (decimal_val (snd st')) envm ?d"
  then have w: "writeMarkets envm (snd st') endt (range_depth envm ?d) = Ok (depth_records repm)"
    using doBucket_report by blast
  have r: "range_of ?d (range_depth envm ?d)"
    and s: "\<And>prices. ?d m = Some prices \<Longrightarrow>
              sorted_levels (decimal_val (snd st')) prices (sorted_keys envm prices)"
    using a by (auto simp: visits_depth_def)
  show "?d m = None \<Longrightarrow> market_rows m (depth_records repm) = []"
    by (rule market_rows_main_none [OF w r])
  show "\<forall>prices. ?d m = Some prices
           \<longrightarrow> market_rows m (depth_records repm)
                 = filter (\<lambda>r. \<not> write_fails envm (DepthMarketFile m endt) r)
                     (map (depthRecord (snd st') m endt prices) (sorted_keys envm prices))
               \<and> distinct (sorted_keys envm prices) \<and> set (sorted_keys envm prices) = dom prices"
    using market_rows_main [OF w r] sorted_levels_descending [OF s] by blast
  show "price_descending numeric_val (market_rows m (depth_records repm))"
  proof (cases "?d m")
    case None
    then show ?thesis
      by (simp add: market_rows_main_none [OF w r] price_descending_def)
  next
    case (Some prices)
    then show ?thesis
      using market_rows_main [OF w r Some] sorted_levels_descending [OF s [OF Some]]
      by (simp add: price_descending_main)
  qed
qed

lemma inj_unat_256: "inj (unat :: 256 word \<Rightarrow> nat)"
  by (rule injI) (simp add: word_unat_eq_iff)

lemma env_ABZ_no_failure:
  "\<forall>s e. \<not> select_fails env_ABZ s e" "\<forall>f. \<not> create_fails env_ABZ f"
  "\<forall>f r. \<not> write_fails env_ABZ f r"
  by (simp_all add: env_ABZ_def env_ok_def)

lemma aggregate_ABZ:
  "aggregate (map snd entries_ABZ) = [''M'' \<mapsto> [level_50_buy \<mapsto> 7, level_60_sell \<mapsto> 0]]"
  by (simp add: aggregate_def addVolume_def levelOf_def entries_ABZ_def order_A_def order_B_def
      order_Z_def level_50_buy_def level_60_sell_def)

lemma levels_ABZ_differ: "level_50_buy \<noteq> level_60_sell"
  by (simp add: level_50_buy_def level_60_sell_def)

lemma visits_depth_ABZ:
  "visits_depth unat env_ABZ [''M'' \<mapsto> [level_50_buy \<mapsto> 7, level_60_sell \<mapsto> 0]]"
proof -
  let ?ps = "[level_50_buy \<mapsto> 7, level_60_sell \<mapsto> 0] :: (256 word) Prices"
  have k: "sorted_keys env_ABZ ?ps = [level_60_sell, level_50_buy]"
    using levels_ABZ_differ by (simp add: env_ABZ_def env_ok_def)
  have m: "maps_Keys ?ps [level_50_buy, level_60_sell]"
    using levels_ABZ_differ by (auto simp: maps_Keys_def)
  have s: "sort_Slice (level_before unat) [level_50_buy, level_60_sell] [level_60_sell, level_50_buy]"
    by (simp add: sort_Slice_def level_before_def level_50_buy_def level_60_sell_def)
  have "sorted_levels unat ?ps (sorted_keys env_ABZ ?ps)"
    unfolding k sorted_levels_def using m s by blast
  moreover have "range_of [''M'' \<mapsto> ?ps] (range_depth env_ABZ [''M'' \<mapsto> ?ps])"
    by (simp add: range_of_def env_ABZ_def env_ok_def)
  ultimately show ?thesis
    by (simp add: visits_depth_def)
qed

lemma aggregate_mem_AB_all:
  "aggregate [mem_order_A, mem_order_B] = [''M'' \<mapsto> [mem_level_A \<mapsto> 3, mem_level_B \<mapsto> 4]]"
  by (simp add: aggregate_def addVolume_def levelOf_def mem_order_A_def mem_order_B_def
      withPrice_def db_order_A_def db_order_B_def mem_level_A_def mem_level_B_def)

lemma decimal_val_AB:
  "decimal_val [50, 50] (price mem_level_A) = 50" "decimal_val [50, 50] (price mem_level_B) = 50"
  by (simp_all add: decimal_val_def decimalString_def bigInt_def numeric_val_def
      mem_level_A_def mem_level_B_def)

lemma visits_depth_mem_AB:
  "visits_depth (decimal_val [50, 50]) env_main [''M'' \<mapsto> [mem_level_A \<mapsto> 3, mem_level_B \<mapsto> 4]]"
proof -
  let ?ps = "[mem_level_A \<mapsto> 3, mem_level_B \<mapsto> 4] :: Decimal Prices"
  have k: "sorted_keys env_main ?ps = [mem_level_A, mem_level_B]"
    using mem_levels_differ by (simp add: env_main_def)
  have m: "maps_Keys ?ps [mem_level_B, mem_level_A]"
    using mem_levels_differ by (auto simp: maps_Keys_def)
  have s: "sort_Slice (level_before (decimal_val [50, 50])) [mem_level_B, mem_level_A]
             [mem_level_A, mem_level_B]"
    by (simp add: sort_Slice_def level_before_def decimal_val_AB)
  have "sorted_levels (decimal_val [50, 50]) ?ps (sorted_keys env_main ?ps)"
    unfolding k sorted_levels_def using m s by blast
  moreover have "range_of [''M'' \<mapsto> ?ps] (range_depth env_main [''M'' \<mapsto> ?ps])"
    by (simp add: range_of_def env_main_def)
  ultimately show ?thesis
    by (simp add: visits_depth_def)
qed

lemma env_main_write_fails: "env_main\<lparr>write_fails := (\<lambda>f r. False)\<rparr> = env_main"
  by (simp add: env_main_def)

lemma doBucket_env_main_first:
  "doBucket env_main 0 Minute (Map.empty, [])
     = Ok ((mem_table_AB, [50, 50]),
           \<lparr>depth_records =
               [[FMarket ''M'', FTime Minute, FSide SideBuy, FPrice (50, 0), FInt 3],
                [FMarket ''M'', FTime Minute, FSide SideBuy, FPrice (50, 0), FInt 4]],
             live_records = [], printed = (Minute, 2, 2)\<rparr>)"
  using doBucket_env_main [OF selectOrders_first_minute scanOrders_AB applyOrders_mem_AB,
      where w = "\<lambda>f r. False"]
  by (simp add: env_main_write_fails)

theorem depth_report_descending_witness:
  "(\<exists>t' rep. doBucket_p0 env_ABZ 0 10 Map.empty = Ok (t', rep)
      \<and> visits_depth unat env_ABZ (aggregate (map snd (range_liveOrders env_ABZ t')))
      \<and> inj (unat :: 256 word \<Rightarrow> nat)
      \<and> market_rows ''M'' (depth_records rep)
          = [[FTime 10, FMarket ''M'', FSide SideSell, FPrice 60, FInt 0],
             [FTime 10, FMarket ''M'', FSide SideBuy, FPrice 50, FInt 7]]
      \<and> price_descending unat (market_rows ''M'' (depth_records rep))
      \<and> price_strictly_descending_by_side unat (market_rows ''M'' (depth_records rep)))
   \<and> (\<exists>repm. doBucket env_main 0 Minute (Map.empty, []) = Ok ((mem_table_AB, [50, 50]), repm)
      \<and> visits_depth (decimal_val [50, 50]) env_main
           (aggregate (map snd (range_liveOrders env_main mem_table_AB)))
      \<and> market_rows ''M'' (depth_records repm)
          = [[FMarket ''M'', FTime Minute, FSide SideBuy, FPrice (50, 0), FInt 3],
             [FMarket ''M'', FTime Minute, FSide SideBuy, FPrice (50, 0), FInt 4]]
      \<and> price_descending numeric_val (market_rows ''M'' (depth_records repm)))"
proof -
  let ?ps = "[level_50_buy \<mapsto> 7, level_60_sell \<mapsto> 0] :: (256 word) Prices"
  obtain t' rep where d: "doBucket_p0 env_ABZ 0 10 Map.empty = Ok (t', rep)"
    using doBucket_p0_ok [OF env_ABZ_no_failure, of 0 10 Map.empty] by auto
  have "selectRows (orders_table env_ABZ) 0 10 = [row_A, row_B, row_Z]"
    by (simp add: env_ABZ_def selectRows_def row_A_def row_B_def row_Z_def)
  then have "t' = applyOrders isLive_p0 [order_A, order_B, order_Z] Map.empty"
    using doBucket_p0_table [OF d] by (simp add: row_A_def row_B_def row_Z_def)
  then have t: "t' = [''A'' \<mapsto> order_A, ''B'' \<mapsto> order_B, ''Z'' \<mapsto> order_Z]"
    by (simp add: applyOrders_def applyOrder_def isLive_p0_def order_A_def order_B_def order_Z_def)
  have r: "range_liveOrders env_ABZ t' = entries_ABZ"
    by (simp add: t env_ABZ_def env_ok_def entries_ABZ_def)
  have g: "aggregate (map snd (range_liveOrders env_ABZ t')) = [''M'' \<mapsto> ?ps]"
    by (simp only: r aggregate_ABZ)
  have v: "visits_depth unat env_ABZ (aggregate (map snd (range_liveOrders env_ABZ t')))"
    by (simp only: g visits_depth_ABZ)
  have k: "sorted_keys env_ABZ ?ps = [level_60_sell, level_50_buy]"
    using levels_ABZ_differ by (simp add: env_ABZ_def env_ok_def)
  note c = depth_report_descending [where env = env_ABZ and start = 0 and endt = 10
      and t = Map.empty and t' = t' and rep = rep and val = unat and m = "''M''",
      THEN conjunct1, rule_format, OF conjI, OF d v]
  have "market_rows ''M'' (depth_records rep) = map (depthRecord_p0 10 ''M'' ?ps) (sorted_keys env_ABZ ?ps)"
    using c g by simp
  then have rows: "market_rows ''M'' (depth_records rep)
          = [[FTime 10, FMarket ''M'', FSide SideSell, FPrice 60, FInt 0],
             [FTime 10, FMarket ''M'', FSide SideBuy, FPrice 50, FInt 7]]"
    using levels_ABZ_differ
    by (simp add: k depthRecord_p0_def vol_of_def) (simp add: level_50_buy_def level_60_sell_def)
  have p0: "price_descending unat (market_rows ''M'' (depth_records rep))
      \<and> price_strictly_descending_by_side unat (market_rows ''M'' (depth_records rep))"
    using c inj_unat_256 by blast
  have dm: "doBucket env_main 0 Minute (Map.empty, []) = Ok ((mem_table_AB, [50, 50]),
           \<lparr>depth_records =
               [[FMarket ''M'', FTime Minute, FSide SideBuy, FPrice (50, 0), FInt 3],
                [FMarket ''M'', FTime Minute, FSide SideBuy, FPrice (50, 0), FInt 4]],
             live_records = [], printed = (Minute, 2, 2)\<rparr>)"
    by (rule doBucket_env_main_first)
  have rm: "range_liveOrders env_main mem_table_AB = [(''A'', mem_order_A), (''B'', mem_order_B)]"
    by (simp add: env_main_def mem_table_AB_def)
  have vm: "visits_depth (decimal_val [50, 50]) env_main
           (aggregate (map snd (range_liveOrders env_main mem_table_AB)))"
    by (simp add: rm aggregate_mem_AB_all visits_depth_mem_AB)
  note cm = depth_report_descending [where envm = env_main and start = 0 and endt = Minute
      and st = "(Map.empty, [])" and st' = "(mem_table_AB, [50, 50])" and m = "''M''",
      THEN conjunct2, rule_format, OF conjI, OF dm]
  have pm: "price_descending numeric_val
      (market_rows ''M'' [[FMarket ''M'', FTime Minute, FSide SideBuy, FPrice (50, 0), FInt 3],
                [FMarket ''M'', FTime Minute, FSide SideBuy, FPrice (50, 0), FInt 4]])"
    using cm vm by simp
  have rowsm: "market_rows ''M'' [[FMarket ''M'', FTime Minute, FSide SideBuy, FPrice (50, 0), FInt 3],
                [FMarket ''M'', FTime Minute, FSide SideBuy, FPrice (50, 0), FInt 4]]
        = [[FMarket ''M'', FTime Minute, FSide SideBuy, FPrice (50, 0), FInt 3],
                [FMarket ''M'', FTime Minute, FSide SideBuy, FPrice (50, 0), FInt 4 :: numeric field]]"
    by (simp add: market_rows_def)
  show ?thesis
    using d v inj_unat_256 rows p0 dm vm pm rowsm by auto
qed

text \<open>
  The claim as it was stated fails for a market with a buy level and a sell level at the
  price 100: both orders of the two levels are possible results of \<^verbatim>\<open>maps.Keys\<close> and
  \<^verbatim>\<open>sort.Slice\<close>, and in neither are the prices strictly descending; the two records
  written carry the same price.
\<close>

theorem levels_tie_counterexample:
  "sorted_levels unat prices_tie [level_100_buy, level_100_sell]
   \<and> sorted_levels unat prices_tie [level_100_sell, level_100_buy]
   \<and> \<not> sorted_wrt (\<lambda>a b. unat (price a) > unat (price b)) [level_100_buy, level_100_sell]
   \<and> \<not> sorted_wrt (\<lambda>a b. unat (price a) > unat (price b)) [level_100_sell, level_100_buy]
   \<and> map (depthRecord_p0 0 ''M'' prices_tie) [level_100_buy, level_100_sell]
       = [[FTime 0, FMarket ''M'', FSide SideBuy, FPrice 100, FInt 1],
          [FTime 0, FMarket ''M'', FSide SideSell, FPrice 100, FInt 2]]"
proof -
  have k: "maps_Keys prices_tie [level_100_buy, level_100_sell]"
    by (auto simp: maps_Keys_def prices_tie_def level_100_buy_def level_100_sell_def)
  have s1: "sort_Slice (level_before unat) [level_100_buy, level_100_sell] [level_100_buy, level_100_sell]"
    by (simp add: sort_Slice_def level_before_def level_100_buy_def level_100_sell_def)
  have s2: "sort_Slice (level_before unat) [level_100_buy, level_100_sell] [level_100_sell, level_100_buy]"
    by (simp add: sort_Slice_def level_before_def level_100_buy_def level_100_sell_def)
  have l1: "sorted_levels unat prices_tie [level_100_buy, level_100_sell]"
    unfolding sorted_levels_def using k s1 by blast
  have l2: "sorted_levels unat prices_tie [level_100_sell, level_100_buy]"
    unfolding sorted_levels_def using k s2 by blast
  have n: "\<not> sorted_wrt (\<lambda>a b. unat (price a) > unat (price b)) [level_100_buy, level_100_sell]"
    "\<not> sorted_wrt (\<lambda>a b. unat (price a) > unat (price b)) [level_100_sell, level_100_buy]"
    by (simp_all add: level_100_buy_def level_100_sell_def)
  have r: "map (depthRecord_p0 0 ''M'' prices_tie) [level_100_buy, level_100_sell]
       = [[FTime 0, FMarket ''M'', FSide SideBuy, FPrice 100, FInt 1],
          [FTime 0, FMarket ''M'', FSide SideSell, FPrice 100, FInt 2]]"
    by (simp add: depthRecord_p0_def prices_tie_def vol_of_def level_100_buy_def level_100_sell_def)
  show ?thesis
    using l1 l2 n r by blast
qed

section \<open>The price levels of \<^verbatim>\<open>main.go\<close>\<close>

text \<open>
  C2 fails on \<^verbatim>\<open>main.go\<close>. The first bucket of the example run has two orders of the market
  \<open>M\<close>, both buying at the price 50, with 3 and 4 remaining. The claim gives one level
  with 7. \<^verbatim>\<open>main.go\<close> writes two rows for the price 50, with 3 and with 4: the key
  \<^verbatim>\<open>Level\<close> holds a \<^verbatim>\<open>decimal.Decimal\<close>, which Go compares by its pointer, and the scan
  gives every order a pointer of its own.
\<close>

theorem main_go_splits_price_level:
  "doBucket env_main 0 Minute (Map.empty, [])
     = Ok ((mem_table_AB, [50, 50]),
           \<lparr>depth_records =
               [[FMarket ''M'', FTime Minute, FSide SideBuy, FPrice (50, 0), FInt 3],
                [FMarket ''M'', FTime Minute, FSide SideBuy, FPrice (50, 0), FInt 4]],
             live_records = [], printed = (Minute, 2, 2)\<rparr>)
   \<and> MarketID mem_order_A = MarketID mem_order_B
   \<and> Side mem_order_A = Side mem_order_B
   \<and> decimal_val [50, 50] (Price mem_order_A) = decimal_val [50, 50] (Price mem_order_B)
   \<and> Price mem_order_A \<noteq> Price mem_order_B
   \<and> Remaining mem_order_A + Remaining mem_order_B = 7"
proof -
  have "decimal_val [50, 50] (Price mem_order_A) = decimal_val [50, 50] (Price mem_order_B)"
    by (simp add: decimal_val_def decimalString_def bigInt_def mem_order_A_def mem_order_B_def
        withPrice_def)
  moreover have "MarketID mem_order_A = MarketID mem_order_B \<and> Side mem_order_A = Side mem_order_B
      \<and> Price mem_order_A \<noteq> Price mem_order_B \<and> Remaining mem_order_A + Remaining mem_order_B = 7"
    by (simp add: mem_order_A_def mem_order_B_def withPrice_def db_order_A_def db_order_B_def)
  ultimately show ?thesis
    using doBucket_env_main_first by simp
qed

text \<open>The second source file on the same two orders writes one level with the sum.\<close>

lemma doBucket_p0_sums_price_level:
  "\<exists>t' rep. doBucket_p0 env_ok 0 10 Map.empty = Ok (t', rep)
     \<and> depth_records rep = [[FTime 10, FMarket ''M'', FSide SideBuy, FPrice 50, FInt 7]]"
proof -
  let ?ps = "[level_50_buy \<mapsto> 7] :: (256 word) Prices"
  obtain t' rep where d: "doBucket_p0 env_ok 0 10 Map.empty = Ok (t', rep)"
    using doBucket_p0_ok [OF env_ok_no_failure(1,2,3), of 0 10 Map.empty] by auto
  have "selectRows (orders_table env_ok) 0 10 = [row_A, row_B]"
    by (simp add: env_ok_def selectRows_def rows_AB_def row_A_def row_B_def)
  then have "t' = applyOrders isLive_p0 [order_A, order_B] Map.empty"
    using doBucket_p0_table [OF d] by (simp add: row_A_def row_B_def)
  then have t: "t' = table_AB"
    by (simp add: applyOrders_def applyOrder_def isLive_p0_def order_A_def order_B_def table_AB_def)
  have r: "range_liveOrders env_ok t' = [(''A'', order_A), (''B'', order_B)]"
    by (simp add: t env_ok_def entries_ABZ_def table_AB_def)
  have a: "aggregate [order_A, order_B] = [''M'' \<mapsto> ?ps]"
    by (simp add: aggregate_def addVolume_def levelOf_def order_A_def order_B_def level_50_buy_def)
  have g: "range_depth env_ok [''M'' \<mapsto> ?ps] = [(''M'', ?ps)]"
    by (simp add: env_ok_def)
  have k: "sorted_keys env_ok ?ps = [level_50_buy]"
    using levels_ABZ_differ by (simp add: env_ok_def)
  have f: "write_fails env_ok = (\<lambda>f r. False)"
    by (simp add: env_ok_def)
  have w: "writeDepthMarkets env_ok 10 [(''M'', ?ps)]
           = Inr [[FTime 10, FMarket ''M'', FSide SideBuy, FPrice 50, FInt 7]]"
    by (simp add: k f Let_def depthRecord_p0_def vol_of_def) (simp add: level_50_buy_def)
  have "writeDepthMarkets env_ok 10 [(''M'', ?ps)] = Inr (depth_records rep)"
    using doBucket_p0_report [OF d] by (simp add: r a g)
  then show ?thesis
    using d w by simp
qed

section \<open>Properties of the driving loop\<close>

text \<open>An error of the bucket ends the run with that error and no further bucket.\<close>

lemma driving_loop_bucket_error:
  assumes "getLast (length buckets) = Inr T" and "endt \<le> T" and "bucket start endt t = Err e"
  shows "driving_loop getLast bucket W start endt t buckets
         = Some (Some (FailedProcessBucket e), buckets, t)"
  using assms by (subst driving_loop.simps) simp

lemma writeRecords_error:
  "writeRecords fails rs = Inl e \<longleftrightarrow> (\<exists>r \<in> set rs. fails r) \<and> e = FailedWriteToFile"
  by (induction rs) (auto split: sum.splits)

lemma doBucket_p0_write_error:
  assumes "writeDepth env endt
     (aggregate (map snd (range_liveOrders env
        (applyOrders isLive_p0 (selectOrders (orders_table env) start endt) t)))) = Inl e"
    and "\<not> select_fails env start endt"
  shows "doBucket_p0 env start endt t = Err (FailedWriteDepthCsv e)"
  using assms by (simp add: doBucket_p0_def Let_def)

text \<open>One iteration of the loop, and its end.\<close>

lemma driving_loop_step:
  assumes "getLast (length buckets) = Inr T" and "endt \<le> T"
    and "bucket start endt t = Ok (t1, rep)"
  shows "driving_loop getLast bucket W start endt t buckets
         = driving_loop getLast bucket W endt (endt + W) t1 (buckets @ [(start, endt, rep)])"
  using assms by (subst driving_loop.simps) simp

lemma driving_loop_done:
  assumes "getLast (length buckets) = Inr T" and "T < endt"
  shows "driving_loop getLast bucket W start endt t buckets = Some (None, buckets, t)"
  using assms by (subst driving_loop.simps) simp

lemma intervals_append: "intervals (xs @ ys) = intervals xs @ intervals ys"
  by (simp add: intervals_def)





section \<open>A run with failing writes\<close>

lemma range_table_AB: "filter (\<lambda>e. table_AB (fst e) = Some (snd e)) entries_ABZ = [(''A'', order_A), (''B'', order_B)]"
  by (simp add: table_AB_def entries_ABZ_def)

lemma aggregate_AB: "aggregate [order_A, order_B] ''M'' = Some [level_50_buy \<mapsto> 7]"
  by (simp add: aggregate_def addVolume_def levelOf_def order_A_def order_B_def level_50_buy_def)

lemma doBucket_p0_writes_fail:
  assumes "selectOrders rows_AB start endt = os" and "applyOrders isLive_p0 os t = table_AB"
  shows "doBucket_p0 env_p0_write_fails start endt t
     = Err (FailedWriteDepthCsv FailedWriteToFile)"
  by (simp add: doBucket_p0_def writeDepth_def env_p0_write_fails_def env_ok_def Let_def assms
      range_table_AB aggregate_AB level_50_buy_def level_60_sell_def)

lemma applyOrders_p0_AB: "applyOrders isLive_p0 [order_A, order_B] Map.empty = table_AB"
  by (simp add: applyOrders_def applyOrder_def isLive_p0_def order_A_def order_B_def
      table_AB_def)

lemma selectOrders_five_minutes: "selectOrders rows_AB 0 (Minute * 5) = [order_A, order_B]"
  by (simp add: selectOrders_def selectRows_def rows_AB_def row_A_def row_B_def Minute_def)

text \<open>
  The second source file in the same run, with five minutes of blocks: the first write
  that fails ends the run, and no bucket is completed.
\<close>

lemma main_p0_write_failure_is_fatal:
  "main_p0 env_p0_write_fails
   = Some (Some (FailedProcessBucket (FailedWriteDepthCsv FailedWriteToFile)), [], Map.empty)"
proof -
  let ?env = "env_p0_write_fails"
  have e: "first_block_bucket_start ?env = Inr 0"
    "last_block_time ?env = (\<lambda>i. Inr (5 * Minute))"
    by (simp_all add: env_p0_write_fails_def env_ok_def)
  have b: "doBucket_p0 ?env 0 (Minute * 5) Map.empty = Err (FailedWriteDepthCsv FailedWriteToFile)"
    by (rule doBucket_p0_writes_fail [OF selectOrders_five_minutes applyOrders_p0_AB])
  have "main_p0 ?env = driving_loop (\<lambda>i. Inr (5 * Minute)) (doBucket_p0 ?env) (Minute * 5)
      0 (Minute * 5) Map.empty []"
    by (simp add: main_p0_def e BUCKET_MINUTES_p0_def)
  also have "\<dots> = Some (Some (FailedProcessBucket (FailedWriteDepthCsv FailedWriteToFile)), [], Map.empty)"
    by (rule driving_loop_bucket_error [where T = "5 * Minute"]) (simp_all add: b)
  finally show ?thesis .
qed

text \<open>
  C9 fails on \<^verbatim>\<open>main.go\<close>. In the run where every \<^verbatim>\<open>csvWriter.Write\<close> fails, \<^verbatim>\<open>main\<close> of
  \<^verbatim>\<open>main.go\<close> ends with \<^verbatim>\<open>done\<close> after both buckets, none of whose records was written:
  the value \<^verbatim>\<open>Write\<close> returns is dropped. In the second source file the same failure
  ends the first bucket and the run (lemma \<open>main_p0_write_failure_is_fatal\<close>).
\<close>

theorem main_go_ignores_write_failure:
  "map_option (\<lambda>(e, bs, t). (e, intervals bs, map (\<lambda>(s, e, rep). depth_records rep) bs))
     (main env_write_fails)
   = Some (None, [(0, Minute), (Minute, 2 * Minute)], [[], []])"
proof -
  let ?L = "driving_loop (\<lambda>i. Inr (2 * Minute)) (doBucket env_write_fails) Minute"
  define rep1 :: "numeric report"
    where "rep1 = \<lparr>depth_records = [], live_records = [],
      printed = (Minute, length [db_order_A, db_order_B], 2)\<rparr>"
  define rep2 :: "numeric report"
    where "rep2 = \<lparr>depth_records = [], live_records = [],
      printed = (Minute + Minute, length ([] :: numeric Order list), 2)\<rparr>"
  have e: "first_block_bucket_start env_write_fails = Inr 0"
    "last_block_time env_write_fails = (\<lambda>i. Inr (2 * Minute))"
    by (simp_all add: env_write_fails_def env_main_def)
  have m: "0 < Minute"
    by (simp add: Minute_def)
  have b1: "doBucket env_write_fails 0 Minute (Map.empty, []) = Ok ((mem_table_AB, [50, 50]), rep1)"
    using doBucket_env_main [OF selectOrders_first_minute scanOrders_AB applyOrders_mem_AB,
        where w = "\<lambda>f r. True"]
    by (simp add: rep1_def env_write_fails_def)
  have b2: "doBucket env_write_fails Minute (Minute + Minute) (mem_table_AB, [50, 50])
      = Ok ((mem_table_AB, [50, 50]), rep2)"
    using doBucket_env_main [OF selectOrders_second_minute scanOrders_nothing applyOrders_none,
        where w = "\<lambda>f r. True"]
    by (simp add: rep2_def env_write_fails_def)
  have "main env_write_fails = ?L 0 Minute (Map.empty, []) []"
    by (simp add: main_def e BUCKET_MINUTES_def)
  also have "\<dots> = ?L Minute (Minute + Minute) (mem_table_AB, [50, 50]) ([] @ [(0, Minute, rep1)])"
    using m by (intro driving_loop_step [where T = "2 * Minute"] b1) simp_all
  also have "\<dots> = ?L (Minute + Minute) (Minute + Minute + Minute) (mem_table_AB, [50, 50])
      (([] @ [(0, Minute, rep1)]) @ [(Minute, Minute + Minute, rep2)])"
    using m by (intro driving_loop_step [where T = "2 * Minute"] b2) simp_all
  also have "\<dots> = Some (None, ([] @ [(0, Minute, rep1)]) @ [(Minute, Minute + Minute, rep2)],
      (mem_table_AB, [50, 50]))"
    using m by (intro driving_loop_done [where T = "2 * Minute"]) simp_all
  finally show ?thesis
    by (simp add: intervals_def rep1_def rep2_def)
qed

end
